theory Spec2Isabelle
  imports Main "HOL-Library.Word"
begin

section \<open>Errors\<close>

text \<open>
  The two exception classes the embedded code raises.  \<open>VELOX_CHECK\<close> and
  \<open>VELOX_CHECK_GT\<close> throw a \<open>VeloxRuntimeError\<close>; \<open>VELOX_USER_CHECK\<close> throws a
  \<open>VeloxUserError\<close>.  Neither class derives from the other, so a handler for
  \<open>VeloxRuntimeError\<close> lets a \<open>VeloxUserError\<close> pass.  The string is the message of
  the check (empty for a check without message).
\<close>

datatype error = VeloxRuntimeError string | VeloxUserError string

section \<open>Int128: overflow-checked 128-bit arithmetic\<close>

text \<open>
  \<open>struct Int128\<close> wraps the single field \<open>int128_t value\<close>; the model identifies
  the wrapper with its field, a 128-bit word read as two's complement by \<open>sint\<close>.
\<close>

type_synonym int128_t = "128 word"
type_synonym Int128 = int128_t

text \<open>
  The GCC builtins \<open>__builtin_add_overflow\<close>, \<open>__builtin_sub_overflow\<close> and
  \<open>__builtin_mul_overflow\<close>: the operation is carried out on the operands promoted
  to infinite precision, the result is cast to the type of the third argument and
  stored there, and the builtin returns whether the stored value differs from the
  infinite-precision result.  The pair is (returned flag, stored value).
\<close>

definition builtin_add_overflow :: "int128_t \<Rightarrow> int128_t \<Rightarrow> bool \<times> int128_t" where
  "builtin_add_overflow a b =
     (let r = sint a + sint b; stored = (word_of_int r :: int128_t)
      in (sint stored \<noteq> r, stored))"

definition builtin_sub_overflow :: "int128_t \<Rightarrow> int128_t \<Rightarrow> bool \<times> int128_t" where
  "builtin_sub_overflow a b =
     (let r = sint a - sint b; stored = (word_of_int r :: int128_t)
      in (sint stored \<noteq> r, stored))"

definition builtin_mul_overflow :: "int128_t \<Rightarrow> int128_t \<Rightarrow> bool \<times> int128_t" where
  "builtin_mul_overflow a b =
     (let r = sint a * sint b; stored = (word_of_int r :: int128_t)
      in (sint stored \<noteq> r, stored))"

text \<open>\<open>Int128::operator+\<close>, \<open>operator*\<close>, \<open>operator-\<close>, in the order of the source.\<close>

definition Int128_plus :: "Int128 \<Rightarrow> Int128 \<Rightarrow> error + Int128" where
  "Int128_plus this rhs =
     (case builtin_add_overflow this rhs of
        (overflow, added) \<Rightarrow> if overflow then Inl (VeloxRuntimeError []) else Inr added)"

definition Int128_times :: "Int128 \<Rightarrow> Int128 \<Rightarrow> error + Int128" where
  "Int128_times this rhs =
     (case builtin_mul_overflow this rhs of
        (overflow, product) \<Rightarrow> if overflow then Inl (VeloxRuntimeError []) else Inr product)"

definition Int128_minus :: "Int128 \<Rightarrow> Int128 \<Rightarrow> error + Int128" where
  "Int128_minus this rhs =
     (case builtin_sub_overflow this rhs of
        (overflow, diff) \<Rightarrow> if overflow then Inl (VeloxRuntimeError []) else Inr diff)"

text \<open>The mathematical integers a signed 128-bit integer can hold.\<close>

definition fits_int128 :: "int \<Rightarrow> bool" where
  "fits_int128 r = (- (2 ^ 127) \<le> r \<and> r < 2 ^ 127)"

section \<open>Decimal\<close>

text \<open>
  \<open>class Decimal\<close>: the private fields \<open>unscaledValue_\<close>, \<open>precision_\<close> and
  \<open>scale_\<close> (the last two \<open>uint8_t\<close>), named here after their accessors.
\<close>

record Decimal =
  getUnscaledValue :: Int128
  getPrecision :: "8 word"
  getScale :: "8 word"

definition kMaxPrecisionInt128 :: "8 word" where
  "kMaxPrecisionInt128 = 38"

text \<open>
  The comparison operators of \<open>Decimal\<close>.  \<open>operator==\<close> compares the three
  fields; \<open>operator!=\<close>, \<open>operator<\<close>, \<open>operator<=\<close> and \<open>operator>\<close> have the
  body \<open>return true;\<close>.
\<close>

definition Decimal_eq :: "Decimal \<Rightarrow> Decimal \<Rightarrow> bool" where
  "Decimal_eq this other =
     (getUnscaledValue this = getUnscaledValue other \<and>
      getPrecision this = getPrecision other \<and>
      getScale this = getScale other)"

definition Decimal_ne :: "Decimal \<Rightarrow> Decimal \<Rightarrow> bool" where
  "Decimal_ne this other = True"

definition Decimal_lt :: "Decimal \<Rightarrow> Decimal \<Rightarrow> bool" where
  "Decimal_lt this other = True"

definition Decimal_le :: "Decimal \<Rightarrow> Decimal \<Rightarrow> bool" where
  "Decimal_le this other = True"

definition Decimal_gt :: "Decimal \<Rightarrow> Decimal \<Rightarrow> bool" where
  "Decimal_gt this other = True"

text \<open>The constructor \<open>Decimal(value, precision, scale)\<close>.\<close>

definition mkDecimal :: "Int128 \<Rightarrow> 8 word \<Rightarrow> 8 word \<Rightarrow> Decimal" where
  "mkDecimal v p s = \<lparr>getUnscaledValue = v, getPrecision = p, getScale = s\<rparr>"

section \<open>Parsing a decimal string\<close>

text \<open>
  The C library's \<open>isdigit\<close> on a character of the string, and the value
  \<open>value[pos] - '0'\<close> of a digit character.
\<close>

definition isdigit :: "char \<Rightarrow> bool" where
  "isdigit c = (48 \<le> (of_char c :: nat) \<and> (of_char c :: nat) \<le> 57)"

definition digit_of :: "char \<Rightarrow> Int128" where
  "digit_of c = word_of_nat (of_char c - of_char CHR ''0'')"

text \<open>
  \<open>std::string\<close>: \<open>operator[]\<close> (the position \<open>size()\<close> holds the null
  character), \<open>find_first_not_of\<close> (\<open>None\<close> is \<open>npos\<close>) and
  \<open>erase(index, count)\<close> (a count of \<open>npos\<close> erases to the end).
\<close>

definition char_at :: "string \<Rightarrow> nat \<Rightarrow> char" where
  "char_at s i = (if i < length s then s ! i else CHR 0x00)"

fun find_first_not_of :: "string \<Rightarrow> char \<Rightarrow> nat option" where
  "find_first_not_of [] c = None"
| "find_first_not_of (x # xs) c =
     (if x \<noteq> c then Some 0 else map_option Suc (find_first_not_of xs c))"

definition erase :: "string \<Rightarrow> nat \<Rightarrow> nat option \<Rightarrow> string" where
  "erase s index count =
     (case count of None \<Rightarrow> take index s | Some n \<Rightarrow> take index s @ drop (index + n) s)"

text \<open>
  The \<open>while\<close> loop of \<open>DecimalCasts::parseToInt128\<close>.  The position \<open>pos\<close>,
  the precision and the scale are \<open>uint8_t\<close>, so \<open>pos++\<close> wraps from 255 to 0
  and the loop need not end on a string of 256 characters or more: the loop is a
  partial function, \<open>None\<close> when it runs forever.  A failed \<open>VELOX_USER_CHECK\<close>
  or a failed check of an \<open>Int128\<close> operator leaves the loop with the error.
\<close>

partial_function (option) parseLoop ::
  "string \<Rightarrow> bool \<Rightarrow> 8 word \<Rightarrow> Int128 \<Rightarrow> 8 word \<Rightarrow> 8 word \<Rightarrow> bool \<Rightarrow>
     (error + Int128 \<times> 8 word \<times> 8 word) option" where
  "parseLoop str isNegative pos result precision scale hasScale =
     (if unat pos < length str then
        (if char_at str (unat pos) = CHR ''.'' then
           parseLoop str isNegative (pos + 1) result precision scale True
         else if \<not> isdigit (char_at str (unat pos)) then
           Some (Inl (VeloxUserError ''Invalid decimal string''))
         else
           (case Int128_times result 10 of
              Inl e \<Rightarrow> Some (Inl e)
            | Inr product \<Rightarrow>
               (case (if isNegative
                      then Int128_minus product (digit_of (char_at str (unat pos)))
                      else Int128_plus product (digit_of (char_at str (unat pos)))) of
                  Inl e \<Rightarrow> Some (Inl e)
                | Inr result' \<Rightarrow>
                   parseLoop str isNegative (pos + 1) result' (precision + 1)
                     (if hasScale then scale + 1 else scale) hasScale)))
      else Some (Inr (result, precision, scale)))"

declare parseLoop.simps [code]

text \<open>
  \<open>DecimalCasts::parseToInt128\<close>: the sign, the leading zeros, the loop.  The
  argument \<open>result\<close> is the caller's \<open>Int128\<close>, which the function updates and
  never resets; on success the model returns it with the precision and the scale.
\<close>

definition parseToInt128 ::
  "string \<Rightarrow> Int128 \<Rightarrow> (error + Int128 \<times> 8 word \<times> 8 word) option" where
  "parseToInt128 str result =
     (if \<not> isdigit (char_at str 0) then
        (if \<not> (char_at str 0 = CHR ''-'' \<or> char_at str 0 = CHR ''+'') then
           Some (Inl (VeloxUserError ''Illegal decimal value''))
         else
           (let isNegative = (char_at str 0 = CHR ''-'');
                str1 = erase str 0 (Some 1);
                str2 = erase str1 0 (find_first_not_of str1 CHR ''0'')
            in parseLoop str2 isNegative 0 result 0 0 False))
      else
        (let str2 = erase str 0 (find_first_not_of str CHR ''0'')
         in parseLoop str2 False 0 result 0 0 False))"

text \<open>
  \<open>DecimalCasts::parseStringToDecimal\<close>: the length check is outside the
  \<open>try\<close> block; the handler turns a \<open>VeloxRuntimeError\<close> of the parse into the
  user error \<open>Decimal overflow\<close>; the local \<open>Int128 unscaledValue\<close> starts at 0.
\<close>

definition parseStringToDecimal :: "string \<Rightarrow> (error + Decimal) option" where
  "parseStringToDecimal str =
     (if \<not> length str > 0 then
        Some (Inl (VeloxRuntimeError ''Decimal string must have at least 1 char''))
      else
        (case parseToInt128 str 0 of
           None \<Rightarrow> None
         | Some (Inl (VeloxRuntimeError m)) \<Rightarrow> Some (Inl (VeloxUserError ''Decimal overflow''))
         | Some (Inl (VeloxUserError m)) \<Rightarrow> Some (Inl (VeloxUserError m))
         | Some (Inr (unscaledValue, precision, scale)) \<Rightarrow>
             Some (Inr (mkDecimal unscaledValue precision scale))))"

text \<open>
  The loop read off the list of the characters still to come, without position: a total
  function, shown below to agree with \<open>parseLoop\<close> on every string of at most 255
  characters.
\<close>

fun parseRest ::
  "string \<Rightarrow> bool \<Rightarrow> Int128 \<Rightarrow> 8 word \<Rightarrow> 8 word \<Rightarrow> bool \<Rightarrow> error + Int128 \<times> 8 word \<times> 8 word"
  where
  "parseRest [] isNegative result precision scale hasScale = Inr (result, precision, scale)"
| "parseRest (c # cs) isNegative result precision scale hasScale =
     (if c = CHR ''.'' then parseRest cs isNegative result precision scale True
      else if \<not> isdigit c then Inl (VeloxUserError ''Invalid decimal string'')
      else
        (case Int128_times result 10 of
           Inl e \<Rightarrow> Inl e
         | Inr product \<Rightarrow>
            (case (if isNegative then Int128_minus product (digit_of c)
                   else Int128_plus product (digit_of c)) of
               Inl e \<Rightarrow> Inl e
             | Inr result' \<Rightarrow>
                parseRest cs isNegative result' (precision + 1)
                  (if hasScale then scale + 1 else scale) hasScale)))"

text \<open>
  The vocabulary of the claims about the parser: the validation errors of the two
  user checks, the overflow error of the handler; the string after an optional
  leading sign; and the two conditions on that remainder, digits and separators only,
  and the same with at most one separator (the grammar of the specification).
\<close>

definition is_validation_error :: "error \<Rightarrow> bool" where
  "is_validation_error e =
     (e = VeloxUserError ''Illegal decimal value'' \<or> e = VeloxUserError ''Invalid decimal string'')"

definition is_overflow_error :: "error \<Rightarrow> bool" where
  "is_overflow_error e = (e = VeloxUserError ''Decimal overflow'')"

definition strip_sign :: "string \<Rightarrow> string" where
  "strip_sign s =
     (case s of [] \<Rightarrow> [] | c # cs \<Rightarrow> if c = CHR ''+'' \<or> c = CHR ''-'' then cs else s)"

definition digits_or_dots :: "string \<Rightarrow> bool" where
  "digits_or_dots s = list_all (\<lambda>c. isdigit c \<or> c = CHR ''.'') s"

definition digits_one_dot :: "string \<Rightarrow> bool" where
  "digits_one_dot s = (digits_or_dots s \<and> count_list s CHR ''.'' \<le> 1)"

definition digit_count :: "string \<Rightarrow> nat" where
  "digit_count s = length (filter isdigit s)"

text \<open>
  The invariant of the data model of the specification: precision in \<open>[1, 38]\<close>,
  scale in \<open>[0, precision]\<close>, and the unscaled value below \<open>10^precision\<close> in
  absolute value.
\<close>

definition Decimal_invariant :: "Decimal \<Rightarrow> bool" where
  "Decimal_invariant d =
     (1 \<le> unat (getPrecision d) \<and> unat (getPrecision d) \<le> unat kMaxPrecisionInt128 \<and>
      unat (getScale d) \<le> unat (getPrecision d) \<and>
      \<bar>sint (getUnscaledValue d)\<bar> < 10 ^ unat (getPrecision d))"

text \<open>
  The string that is left of the input once the optional sign and the leading zeros
  are erased, and the number of digits after the first separator of a string.
\<close>

definition loop_input :: "string \<Rightarrow> string" where
  "loop_input str =
     dropWhile (\<lambda>c. c = CHR ''0'') (if isdigit (char_at str 0) then str else drop 1 str)"

definition fraction_digits :: "string \<Rightarrow> nat" where
  "fraction_digits s = digit_count (drop 1 (dropWhile (\<lambda>c. c \<noteq> CHR ''.'') s))"

text \<open>
  A separator, 255 zeros and a letter: 257 characters, on which the position of the loop
  wraps around before it reaches the letter.
\<close>

definition zeros_after_dot :: string where
  "zeros_after_dot = CHR ''.'' # replicate 255 CHR ''0'' @ ''x''"

section \<open>Vectors, selections and decoded vectors\<close>

text \<open>
  \<open>vector_size_t\<close> is \<open>int32_t\<close>.  Row numbers, offsets, sizes and dictionary
  indices of a vector are not negative and are natural numbers in the model; a signed
  addition whose result does not fit 32 bits is undefined behaviour in the source and
  \<open>None\<close> here, as is a read or a write outside a buffer and a call through a null
  pointer.
\<close>

type_synonym vector_size_t = nat

definition add32 :: "vector_size_t \<Rightarrow> vector_size_t \<Rightarrow> vector_size_t option" where
  "add32 a b = (if a + b < 2 ^ 31 then Some (a + b) else None)"

definition read_at :: "'a list \<Rightarrow> nat \<Rightarrow> 'a option" where
  "read_at xs i = (if i < length xs then Some (xs ! i) else None)"

definition write_at :: "'a list \<Rightarrow> nat \<Rightarrow> 'a \<Rightarrow> 'a list option" where
  "write_at xs i v = (if i < length xs then Some (xs[i := v]) else None)"

text \<open>
  The encodings of a vector that the two components use.  A \<open>BufferPtr\<close> of nulls
  is a list of flags (\<open>True\<close> for a null row) or \<open>None\<close> for the null pointer.
  The arguments follow the constructors of the source: \<open>FlatVector(nulls, length,
  values)\<close>, \<open>ArrayVector(nulls, length, offsets, sizes, elements)\<close>,
  \<open>MapVector(nulls, length, offsets, sizes, keys, values)\<close>; a dictionary vector
  holds what \<open>wrapInDictionary(nulls, indices, size, base)\<close> is given.
\<close>

datatype 'a BaseVector =
    FlatVector "bool list option" vector_size_t "'a list"
  | DictionaryVector "bool list option" "vector_size_t list" vector_size_t "'a BaseVector"
  | ArrayVector "bool list option" vector_size_t "vector_size_t list" "vector_size_t list"
      "'a BaseVector"
  | MapVector "bool list option" vector_size_t "vector_size_t list" "vector_size_t list"
      "'a BaseVector" "'a BaseVector"

type_synonym 'a VectorPtr = "'a BaseVector option"

text \<open>
  \<open>as<ArrayVector>()\<close>, \<open>as<MapVector>()\<close> and \<open>dynamic_pointer_cast\<close>: the
  vector if it has the encoding asked for, the null pointer otherwise.
\<close>

fun as_ArrayVector :: "'a BaseVector \<Rightarrow> 'a VectorPtr" where
  "as_ArrayVector (ArrayVector n l os ss es) = Some (ArrayVector n l os ss es)"
| "as_ArrayVector v = None"

fun as_MapVector :: "'a BaseVector \<Rightarrow> 'a VectorPtr" where
  "as_MapVector (MapVector n l os ss ks vs) = Some (MapVector n l os ss ks vs)"
| "as_MapVector v = None"

definition dynamic_pointer_cast :: "('a BaseVector \<Rightarrow> 'a VectorPtr) \<Rightarrow> 'a VectorPtr \<Rightarrow> 'a VectorPtr" where
  "dynamic_pointer_cast as_T p = (case p of None \<Rightarrow> None | Some v \<Rightarrow> as_T v)"

text \<open>The accessors of an array or map vector; a call on another encoding is \<open>None\<close>.\<close>

fun rawSizes :: "'a BaseVector \<Rightarrow> vector_size_t list option" where
  "rawSizes (ArrayVector n l os ss es) = Some ss"
| "rawSizes (MapVector n l os ss ks vs) = Some ss"
| "rawSizes v = None"

fun rawOffsets :: "'a BaseVector \<Rightarrow> vector_size_t list option" where
  "rawOffsets (ArrayVector n l os ss es) = Some os"
| "rawOffsets (MapVector n l os ss ks vs) = Some os"
| "rawOffsets v = None"

fun elements :: "'a BaseVector \<Rightarrow> 'a VectorPtr" where
  "elements (ArrayVector n l os ss es) = Some es"
| "elements v = None"

fun mapKeys :: "'a BaseVector \<Rightarrow> 'a VectorPtr" where
  "mapKeys (MapVector n l os ss ks vs) = Some ks"
| "mapKeys v = None"

fun mapValues :: "'a BaseVector \<Rightarrow> 'a VectorPtr" where
  "mapValues (MapVector n l os ss ks vs) = Some vs"
| "mapValues v = None"

text \<open>
  Modelled from the spec: \<open>BaseVector::wrapInDictionary\<close> is declared in
  \<open>velox/vector/BaseVector.h\<close>, which is not among the sources.  The specification:
  \<open>wrapInDictionary(nulls, indices, length, base)\<close> builds a Dictionary vector, and
  reading row \<open>i\<close> of a Dictionary vector resolves via \<open>indices[i]\<close> into the base.
  (It may return the base for the identity selection, an optimisation that does not
  change what a row reads; the model always builds the dictionary.)
\<close>

definition wrapInDictionary ::
  "bool list option \<Rightarrow> vector_size_t list \<Rightarrow> vector_size_t \<Rightarrow> 'a VectorPtr \<Rightarrow> 'a VectorPtr" where
  "wrapInDictionary nulls indices size' base =
     (case base of None \<Rightarrow> None | Some b \<Rightarrow> Some (DictionaryVector nulls indices size' b))"

text \<open>
  Modelled from the spec: reading a row of a vector (\<open>valueAt\<close>, \<open>isNullAt\<close> of
  the vector classes, not among the sources).  A Flat vector holds its values directly;
  a Dictionary vector resolves row \<open>i\<close> via \<open>indices[i]\<close> into its base.  The
  result is \<open>None\<close> outside the vector, \<open>Some None\<close> for a null row.
\<close>

fun valueAt :: "'a BaseVector \<Rightarrow> vector_size_t \<Rightarrow> 'a option option" where
  "valueAt (FlatVector nulls n values) i =
     (if i < n \<and> i < length values then
        (case nulls of
           None \<Rightarrow> Some (Some (values ! i))
         | Some ns \<Rightarrow> if i < length ns then Some (if ns ! i then None else Some (values ! i))
                      else None)
      else None)"
| "valueAt (DictionaryVector nulls indices n base) i =
     (if i < n \<and> i < length indices then
        (case nulls of
           None \<Rightarrow> valueAt base (indices ! i)
         | Some ns \<Rightarrow> if i < length ns then (if ns ! i then Some None else valueAt base (indices ! i))
                      else None)
      else None)"
| "valueAt v i = None"

text \<open>
  Modelled from the spec: \<open>SelectivityVector\<close> (\<open>velox/vector/SelectivityVector.h\<close>,
  not among the sources) is an ordered set of active row positions in
  \<open>[0, length)\<close>, iterated in ascending order.  The model holds \<open>size()\<close>,
  \<open>end()\<close> (a bound above every active row) and the active rows in the order in
  which \<open>applyToSelected\<close> visits them.
\<close>

record SelectivityVector =
  sv_size :: vector_size_t
  sv_end :: vector_size_t
  sv_rows :: "vector_size_t list"

definition valid_rows :: "SelectivityVector \<Rightarrow> bool" where
  "valid_rows rows =
     (sorted_wrt (<) (sv_rows rows) \<and> list_all (\<lambda>r. r < sv_end rows) (sv_rows rows) \<and>
      sv_end rows \<le> sv_size rows)"

text \<open>
  Modelled from the spec: \<open>SelectivityVector::applyToSelected\<close> calls its argument
  on the active rows in ascending order.  Here the body can be undefined, which ends
  the iteration.
\<close>

fun applyToSelected :: "(vector_size_t \<Rightarrow> 's \<Rightarrow> 's option) \<Rightarrow> vector_size_t list \<Rightarrow> 's \<Rightarrow> 's option" where
  "applyToSelected f [] s = Some s"
| "applyToSelected f (row # rows) s = (case f row s of None \<Rightarrow> None | Some s' \<Rightarrow> applyToSelected f rows s')"

text \<open>
  Modelled from the spec: \<open>DecodedVector\<close> (\<open>velox/vector/DecodedVector.h\<close>, not
  among the sources) resolves dictionary indirection to a base that is not a
  dictionary, indices mapping each row to a row of the base, and an identity flag;
  \<open>isNullAt(row)\<close> consults the validity through the same indices, and the absence
  of the validity means that no row is null.  The field \<open>dv_nulls\<close> holds the null
  flag of each row of the decoded vector, or \<open>None\<close>.
\<close>

record 'a DecodedVector =
  dv_base :: "'a BaseVector"
  dv_indices :: "vector_size_t list"
  dv_nulls :: "bool list option"
  dv_isIdentityMapping :: bool

definition mayHaveNulls :: "'a DecodedVector \<Rightarrow> bool" where
  "mayHaveNulls d = (dv_nulls d \<noteq> None)"

definition isNullAt :: "'a DecodedVector \<Rightarrow> vector_size_t \<Rightarrow> bool option" where
  "isNullAt d row = (case dv_nulls d of None \<Rightarrow> Some False | Some ns \<Rightarrow> read_at ns row)"

text \<open>
  Modelled from the spec: \<open>AlignedBuffer::allocate\<close>, \<open>allocateIndices\<close>,
  \<open>allocateSizes\<close> and \<open>allocateOffsets\<close> (not among the sources) give a buffer
  of the number of slots asked for.  What a slot holds before its first write is not
  specified; the model fills a new buffer with \<open>False\<close> or 0, and the theorems
  below read only slots that the call has written.
\<close>

definition allocate_bool :: "vector_size_t \<Rightarrow> bool list" where
  "allocate_bool n = replicate n False"

definition allocateIndices :: "vector_size_t \<Rightarrow> vector_size_t list" where
  "allocateIndices n = replicate n 0"

definition allocateSizes :: "vector_size_t \<Rightarrow> vector_size_t list" where
  "allocateSizes n = replicate n 0"

definition allocateOffsets :: "vector_size_t \<Rightarrow> vector_size_t list" where
  "allocateOffsets n = replicate n 0"

text \<open>
  Modelled from the spec: \<open>bits::setNull\<close> and \<open>bits::isBitNull\<close> (of the
  bit utilities, not among the sources) write and read the null flag of a row in a
  validity bitmap.
\<close>

definition setNull :: "bool list \<Rightarrow> vector_size_t \<Rightarrow> bool \<Rightarrow> bool list option" where
  "setNull rawNulls row isNull = write_at rawNulls row isNull"

definition isBitNull :: "bool list \<Rightarrow> vector_size_t \<Rightarrow> bool option" where
  "isBitNull rawNulls row = read_at rawNulls row"

section \<open>Flattening of dictionary-encoded arrays and maps\<close>

text \<open>\<open>flattenNulls\<close>: the null pointer when the decoded vector has no nulls.\<close>

definition flattenNulls :: "SelectivityVector \<Rightarrow> 'a DecodedVector \<Rightarrow> bool list option option" where
  "flattenNulls rows decodedVector =
     (if \<not> mayHaveNulls decodedVector then Some None
      else
        map_option Some
          (applyToSelected
             (\<lambda>row rawNulls.
                case isNullAt decodedVector row of
                  None \<Rightarrow> None
                | Some isNull \<Rightarrow> setNull rawNulls row isNull)
             (sv_rows rows) (allocate_bool (sv_size rows))))"

text \<open>
  The inner loop of \<open>flattenBuffers\<close>:
  \<open>for (i = 0; i < size; i++) rawElementIndices[elementIndex++] = offset + i\<close>,
  from the value \<open>i\<close> of the counter on.
\<close>

function writeElementIndices ::
  "vector_size_t \<Rightarrow> vector_size_t \<Rightarrow> vector_size_t \<Rightarrow> vector_size_t \<Rightarrow> vector_size_t list \<Rightarrow>
     (vector_size_t \<times> vector_size_t list) option" where
  "writeElementIndices offset size' i elementIndex rawElementIndices =
     (if i < size' then
        (case add32 offset i of
           None \<Rightarrow> None
         | Some v \<Rightarrow>
            (case write_at rawElementIndices elementIndex v of
               None \<Rightarrow> None
             | Some rawElementIndices' \<Rightarrow>
                (case add32 elementIndex 1 of
                   None \<Rightarrow> None
                 | Some elementIndex' \<Rightarrow>
                     writeElementIndices offset size' (Suc i) elementIndex' rawElementIndices')))
      else Some (elementIndex, rawElementIndices))"
  by pat_completeness auto
termination
  by (relation "measure (\<lambda>(offset, size', i, elementIndex, rawElementIndices). size' - i)") auto

text \<open>
  The test \<open>rawNewNulls && bits::isBitNull(rawNewNulls, row)\<close>: false when the
  buffer of nulls is the null pointer.
\<close>

definition newNullAt :: "bool list option \<Rightarrow> vector_size_t \<Rightarrow> bool option" where
  "newNullAt rawNewNulls row =
     (case rawNewNulls of None \<Rightarrow> Some False | Some ns \<Rightarrow> isBitNull ns row)"

text \<open>
  The body of the second \<open>applyToSelected\<close> of \<open>flattenBuffers\<close>, on the state
  (\<open>elementIndex\<close>, \<open>rawElementIndices\<close>, \<open>rawNewSizes\<close>, \<open>rawNewOffsets\<close>).
\<close>

definition flattenRow ::
  "bool list option \<Rightarrow> vector_size_t list \<Rightarrow> vector_size_t list \<Rightarrow> vector_size_t list \<Rightarrow>
   vector_size_t \<Rightarrow>
   vector_size_t \<times> vector_size_t list \<times> vector_size_t list \<times> vector_size_t list \<Rightarrow>
   (vector_size_t \<times> vector_size_t list \<times> vector_size_t list \<times> vector_size_t list) option" where
  "flattenRow rawNewNulls indices rawSizes' rawOffsets' row st =
     (case st of (elementIndex, rawElementIndices, rawNewSizes, rawNewOffsets) \<Rightarrow>
       (case newNullAt rawNewNulls row of
          None \<Rightarrow> None
        | Some True \<Rightarrow> Some st
        | Some False \<Rightarrow>
           (case read_at indices row of
              None \<Rightarrow> None
            | Some index \<Rightarrow>
               (case (read_at rawSizes' index, read_at rawOffsets' index) of
                  (Some size', Some offset) \<Rightarrow>
                    (case (write_at rawNewSizes row size', write_at rawNewOffsets row elementIndex) of
                       (Some rawNewSizes', Some rawNewOffsets') \<Rightarrow>
                         (case writeElementIndices offset size' 0 elementIndex rawElementIndices of
                            None \<Rightarrow> None
                          | Some (elementIndex', rawElementIndices') \<Rightarrow>
                              Some (elementIndex', rawElementIndices', rawNewSizes', rawNewOffsets'))
                     | _ \<Rightarrow> None)
                | _ \<Rightarrow> None))))"

text \<open>
  \<open>flattenBuffers<T>\<close>; the template argument is the cast \<open>as<T>\<close>.  The result is
  the four buffers the source returns through its reference arguments.
\<close>

definition flattenBuffers ::
  "('a BaseVector \<Rightarrow> 'a VectorPtr) \<Rightarrow> SelectivityVector \<Rightarrow> vector_size_t \<Rightarrow> 'a DecodedVector \<Rightarrow>
     (bool list option \<times> vector_size_t list \<times> vector_size_t list \<times> vector_size_t list) option" where
  "flattenBuffers as_T rows newNumElements decodedVector =
     (case flattenNulls rows decodedVector of
        None \<Rightarrow> None
      | Some newNulls \<Rightarrow>
         (let elementIndices = allocateIndices newNumElements;
              newSizes = allocateSizes (sv_end rows);
              newOffsets = allocateOffsets (sv_end rows);
              indices = dv_indices decodedVector
          in case as_T (dv_base decodedVector) of
               None \<Rightarrow> None
             | Some vector \<Rightarrow>
                (case (rawSizes vector, rawOffsets vector) of
                   (Some rawSizes', Some rawOffsets') \<Rightarrow>
                     (case applyToSelected (flattenRow newNulls indices rawSizes' rawOffsets')
                             (sv_rows rows) (0, elementIndices, newSizes, newOffsets) of
                        None \<Rightarrow> None
                      | Some (elementIndex, elementIndices', newSizes', newOffsets') \<Rightarrow>
                          Some (newNulls, elementIndices', newSizes', newOffsets'))
                 | _ \<Rightarrow> None)))"

text \<open>
  Modelled from the spec: \<open>countElements<T>\<close> is a template of
  \<open>velox/functions/lib/LambdaFunctionUtil.h\<close>, which is not among the sources.  The
  specification (pass 1 of the flattening): \<open>newNumElements\<close> is the sum of the
  sizes of the selected rows that are not null, the size of a row being resolved
  through the dictionary.
\<close>

definition countElements ::
  "('a BaseVector \<Rightarrow> 'a VectorPtr) \<Rightarrow> SelectivityVector \<Rightarrow> 'a DecodedVector \<Rightarrow> vector_size_t option" where
  "countElements as_T rows decodedVector =
     (case as_T (dv_base decodedVector) of
        None \<Rightarrow> None
      | Some vector \<Rightarrow>
         (case rawSizes vector of
            None \<Rightarrow> None
          | Some rawSizes' \<Rightarrow>
             applyToSelected
               (\<lambda>row count.
                  case isNullAt decodedVector row of
                    None \<Rightarrow> None
                  | Some True \<Rightarrow> Some count
                  | Some False \<Rightarrow>
                     (case read_at (dv_indices decodedVector) row of
                        None \<Rightarrow> None
                      | Some index \<Rightarrow>
                         (case read_at rawSizes' index of
                            None \<Rightarrow> None
                          | Some size' \<Rightarrow> add32 count size')))
               (sv_rows rows) 0))"

text \<open>\<open>flattenArray\<close> and \<open>flattenMap\<close>.\<close>

definition flattenArray ::
  "SelectivityVector \<Rightarrow> 'a VectorPtr \<Rightarrow> 'a DecodedVector \<Rightarrow> 'a VectorPtr option" where
  "flattenArray rows vector decodedVector =
     (if dv_isIdentityMapping decodedVector then Some (dynamic_pointer_cast as_ArrayVector vector)
      else
        (case countElements as_ArrayVector rows decodedVector of
           None \<Rightarrow> None
         | Some newNumElements \<Rightarrow>
            (case flattenBuffers as_ArrayVector rows newNumElements decodedVector of
               None \<Rightarrow> None
             | Some (newNulls, elementIndices, newSizes, newOffsets) \<Rightarrow>
                (case as_ArrayVector (dv_base decodedVector) of
                   None \<Rightarrow> None
                 | Some array \<Rightarrow>
                    (case wrapInDictionary None elementIndices newNumElements (elements array) of
                       None \<Rightarrow> None
                     | Some newElements \<Rightarrow>
                        Some (Some (ArrayVector newNulls (sv_size rows) newOffsets newSizes
                                      newElements)))))))"

definition flattenMap ::
  "SelectivityVector \<Rightarrow> 'a VectorPtr \<Rightarrow> 'a DecodedVector \<Rightarrow> 'a VectorPtr option" where
  "flattenMap rows vector decodedVector =
     (if dv_isIdentityMapping decodedVector then Some (dynamic_pointer_cast as_MapVector vector)
      else
        (case countElements as_MapVector rows decodedVector of
           None \<Rightarrow> None
         | Some newNumElements \<Rightarrow>
            (case flattenBuffers as_MapVector rows newNumElements decodedVector of
               None \<Rightarrow> None
             | Some (newNulls, elementIndices, newSizes, newOffsets) \<Rightarrow>
                (case as_MapVector (dv_base decodedVector) of
                   None \<Rightarrow> None
                 | Some map' \<Rightarrow>
                    (case (wrapInDictionary None elementIndices newNumElements (mapKeys map'),
                           wrapInDictionary None elementIndices newNumElements (mapValues map')) of
                       (Some newKeys, Some newValues) \<Rightarrow>
                         Some (Some (MapVector newNulls (sv_size rows) newOffsets newSizes
                                       newKeys newValues))
                     | _ \<Rightarrow> None)))))"

text \<open>
  The vocabulary of the claims about flattening.  For a row \<open>r\<close> of the decoded
  vector: whether it is null, and its size and offset, those of the base at
  \<open>indices[r]\<close>; the selected rows that are not null.
\<close>

definition rowNull :: "'a DecodedVector \<Rightarrow> vector_size_t \<Rightarrow> bool" where
  "rowNull d r = (case dv_nulls d of None \<Rightarrow> False | Some ns \<Rightarrow> ns ! r)"

definition rowSize :: "'a DecodedVector \<Rightarrow> vector_size_t \<Rightarrow> vector_size_t" where
  "rowSize d r = (case rawSizes (dv_base d) of None \<Rightarrow> 0 | Some ss \<Rightarrow> ss ! (dv_indices d ! r))"

definition rowOffset :: "'a DecodedVector \<Rightarrow> vector_size_t \<Rightarrow> vector_size_t" where
  "rowOffset d r = (case rawOffsets (dv_base d) of None \<Rightarrow> 0 | Some os \<Rightarrow> os ! (dv_indices d ! r))"

definition nonNullRows :: "SelectivityVector \<Rightarrow> 'a DecodedVector \<Rightarrow> vector_size_t list" where
  "nonNullRows rows d = filter (\<lambda>r. \<not> rowNull d r) (sv_rows rows)"

text \<open>
  What a caller owes to the flattening: the selection is valid; every selected row
  has a null flag when there are flags; every selected row that is not null has an
  index into the sizes and offsets of the base, and the end of its element range fits
  \<open>vector_size_t\<close>; and so does the number of elements of the selected rows.
\<close>

definition row_in_range :: "'a DecodedVector \<Rightarrow> vector_size_t \<Rightarrow> bool" where
  "row_in_range d r =
     ((case dv_nulls d of None \<Rightarrow> True | Some ns \<Rightarrow> r < length ns) \<and>
      (rowNull d r \<or>
       (r < length (dv_indices d) \<and>
        (case (rawSizes (dv_base d), rawOffsets (dv_base d)) of
           (Some ss, Some os) \<Rightarrow>
              dv_indices d ! r < length ss \<and> dv_indices d ! r < length os \<and>
              os ! (dv_indices d ! r) + ss ! (dv_indices d ! r) \<le> 2 ^ 31
         | _ \<Rightarrow> False))))"

definition flattenable :: "SelectivityVector \<Rightarrow> 'a DecodedVector \<Rightarrow> bool" where
  "flattenable rows d =
     (valid_rows rows \<and> list_all (row_in_range d) (sv_rows rows) \<and>
      sum_list (map (rowSize d) (nonNullRows rows d)) < 2 ^ 31)"

text \<open>
  An example: an array vector of three rows over six elements, a map vector of the same
  shape, their decoding under the dictionary indices \<open>[2, 0, 2, 1]\<close> with row 1
  null, and the selection of the rows 0, 1 and 3 of 4.
\<close>

definition example_elements :: "nat BaseVector" where
  "example_elements = FlatVector None 6 [10, 11, 12, 13, 14, 15]"

definition example_values :: "nat BaseVector" where
  "example_values = FlatVector None 6 [20, 21, 22, 23, 24, 25]"

definition example_array :: "nat BaseVector" where
  "example_array = ArrayVector None 3 [0, 2, 5] [2, 3, 1] example_elements"

definition example_map :: "nat BaseVector" where
  "example_map = MapVector None 3 [0, 2, 5] [2, 3, 1] example_elements example_values"

definition example_decoded :: "nat BaseVector \<Rightarrow> bool \<Rightarrow> nat DecodedVector" where
  "example_decoded base identity =
     \<lparr>dv_base = base, dv_indices = [2, 0, 2, 1], dv_nulls = Some [False, True, False, False],
      dv_isIdentityMapping = identity\<rparr>"

definition example_rows :: SelectivityVector where
  "example_rows = \<lparr>sv_size = 4, sv_end = 4, sv_rows = [0, 1, 3]\<rparr>"

section \<open>Conversion of a foreign column\<close>

text \<open>
  The vectors of the foreign engine, as far as \<open>DuckWrapper.cpp\<close> reads them: the
  encoding (\<open>GetVectorType\<close>), the logical type (\<open>GetType\<close>) and its physical
  storage (\<open>InternalType\<close>); for a flat vector the data and the validity mask
  (\<open>None\<close> when \<open>AllValid()\<close>, and \<open>True\<close> for a valid row); for a dictionary
  vector the child and the selection vector.  Every other encoding is
  \<open>OTHER_VECTOR\<close>.
\<close>

datatype LogicalTypeId =
  BOOLEAN | TINYINT | SMALLINT | INTEGER | BIGINT | HUGEINT | FLOAT | DOUBLE | DECIMAL |
  VARCHAR | DATE | TIMESTAMP | OTHER_TYPE

datatype PhysicalType = INT16 | INT32 | INT64 | INT128 | OTHER_PHYSICAL

datatype 'a DuckVector =
    FLAT_VECTOR LogicalTypeId PhysicalType "'a list" "bool list option"
  | DICTIONARY_VECTOR LogicalTypeId PhysicalType "'a DuckVector" "vector_size_t list"
  | OTHER_VECTOR LogicalTypeId PhysicalType

fun GetType :: "'a DuckVector \<Rightarrow> LogicalTypeId" where
  "GetType (FLAT_VECTOR t p duckData duckValidity) = t"
| "GetType (DICTIONARY_VECTOR t p child selection) = t"
| "GetType (OTHER_VECTOR t p) = t"

fun InternalType :: "'a DuckVector \<Rightarrow> PhysicalType" where
  "InternalType (FLAT_VECTOR t p duckData duckValidity) = p"
| "InternalType (DICTIONARY_VECTOR t p child selection) = p"
| "InternalType (OTHER_VECTOR t p) = p"

text \<open>
  \<open>VELOX_UNSUPPORTED\<close> and the \<open>std::runtime_error\<close> of \<open>toVeloxVector\<close>.
\<close>

datatype convert_error = VeloxUnsupported string | runtime_error string

text \<open>\<open>ValidityMask::RowIsValid\<close>; a read outside the mask is undefined.\<close>

definition RowIsValid :: "bool list option \<Rightarrow> vector_size_t \<Rightarrow> bool option" where
  "RowIsValid duckValidity i =
     (case duckValidity of None \<Rightarrow> Some True | Some validityMask \<Rightarrow> read_at validityMask i)"

text \<open>
  The loop over the rows of the copying branches:
  \<open>if (duckValidity.RowIsValid(i) && (!validity || bits::isBitSet(validity, i)))
  flatResult->set(i, OP::toVelox(duckData[i]))\<close>.
\<close>

definition copyRows ::
  "('a \<Rightarrow> 'a) \<Rightarrow> 'a list \<Rightarrow> bool list option \<Rightarrow> bool list option \<Rightarrow> vector_size_t \<Rightarrow> 'a list \<Rightarrow>
     'a list option" where
  "copyRows toVelox duckData duckValidity validity size' flatResult =
     applyToSelected
       (\<lambda>i flatResult.
          case RowIsValid duckValidity i of
            None \<Rightarrow> None
          | Some False \<Rightarrow> Some flatResult
          | Some True \<Rightarrow>
             (case (case validity of None \<Rightarrow> Some True | Some used \<Rightarrow> read_at used i) of
                None \<Rightarrow> None
              | Some False \<Rightarrow> Some flatResult
              | Some True \<Rightarrow>
                 (case read_at duckData i of
                    None \<Rightarrow> None
                  | Some x \<Rightarrow> write_at flatResult i (toVelox x))))
       [0..<size'] flatResult"

text \<open>
  The nulls of the result: none when the mask is \<open>AllValid()\<close>, otherwise the first
  \<open>size\<close> bits of the mask (copied by \<open>memcpy\<close> or adopted as a view); a valid
  row is a row that is not null.
\<close>

definition nullsOf :: "bool list option \<Rightarrow> vector_size_t \<Rightarrow> bool list option option" where
  "nullsOf duckValidity size' =
     (case duckValidity of
        None \<Rightarrow> Some None
      | Some validityMask \<Rightarrow>
          if size' \<le> length validityMask then Some (Some (map Not (take size' validityMask)))
          else None)"

text \<open>
  The two loops over the selection of a dictionary vector: the maximum index, and the
  bitmap of the used values.
\<close>

definition maxSelectionIndex :: "vector_size_t list \<Rightarrow> vector_size_t \<Rightarrow> vector_size_t" where
  "maxSelectionIndex selection size' =
     fold (\<lambda>i maxIndex. max maxIndex (selection ! i)) [0..<size'] 0"

definition usedValues :: "vector_size_t list \<Rightarrow> vector_size_t \<Rightarrow> vector_size_t \<Rightarrow> bool list" where
  "usedValues selection size' maxIndex =
     fold (\<lambda>i validityVector. validityVector[selection ! i := True]) [0..<size']
       (replicate (maxIndex + 1) False)"

text \<open>
  \<open>convert<OP>\<close>.  The conversion \<open>OP::toVelox\<close> (of \<open>DuckConversion.h\<close>, not
  among the sources) and the value \<open>zero\<close> of a slot of the vector that
  \<open>BaseVector::create\<close> builds are parameters; the type of the result is not
  modelled.  A view over the foreign data holds its first \<open>size\<close> values.
\<close>

fun convert ::
  "('a \<Rightarrow> 'a) \<Rightarrow> 'a \<Rightarrow> 'a DuckVector \<Rightarrow> vector_size_t \<Rightarrow> bool list option \<Rightarrow>
     (convert_error + 'a BaseVector) option" where
  "convert toVelox zero (FLAT_VECTOR t p duckData duckValidity) size' validity =
     (if t = HUGEINT \<or> t = TIMESTAMP \<or> t = VARCHAR then
        (case copyRows toVelox duckData duckValidity validity size' (replicate size' zero) of
           None \<Rightarrow> None
         | Some values \<Rightarrow>
            (case nullsOf duckValidity size' of
               None \<Rightarrow> None
             | Some rawNulls \<Rightarrow> Some (Inr (FlatVector rawNulls size' values))))
      else
        (case nullsOf duckValidity size' of
           None \<Rightarrow> None
         | Some nullsView \<Rightarrow> Some (Inr (FlatVector nullsView size' (take size' duckData)))))"
| "convert toVelox zero (DICTIONARY_VECTOR t p child selection) size' validity =
     (if \<not> size' \<le> length selection then None
      else
        (let maxIndex = maxSelectionIndex selection size';
             base =
               (if GetType child = HUGEINT \<or> GetType child = TIMESTAMP \<or> GetType child = VARCHAR
                then convert toVelox zero child (maxIndex + 1)
                       (Some (usedValues selection size' maxIndex))
                else convert toVelox zero child (maxIndex + 1) None)
         in case base of
              None \<Rightarrow> None
            | Some (Inl e) \<Rightarrow> Some (Inl e)
            | Some (Inr b) \<Rightarrow>
               (case wrapInDictionary None (take size' selection) size' (Some b) of
                  None \<Rightarrow> None
                | Some v \<Rightarrow> Some (Inr v))))"
| "convert toVelox zero (OTHER_VECTOR t p) size' validity =
     Some (Inl (VeloxUnsupported ''Unsupported DuckDB vector encoding''))"

text \<open>\<open>convertDuckToVeloxDecimal<OP, I>\<close>.\<close>

fun convertDuckToVeloxDecimal ::
  "('a \<Rightarrow> 'a) \<Rightarrow> 'a \<Rightarrow> 'a DuckVector \<Rightarrow> vector_size_t \<Rightarrow> bool list option \<Rightarrow>
     (convert_error + 'a BaseVector) option" where
  "convertDuckToVeloxDecimal toVelox zero (FLAT_VECTOR t internalType duckData duckValidity)
       size' validity =
     (if internalType = INT16 \<or> internalType = INT32 then
        (case copyRows toVelox duckData duckValidity validity size' (replicate size' zero) of
           None \<Rightarrow> None
         | Some values \<Rightarrow>
            (case nullsOf duckValidity size' of
               None \<Rightarrow> None
             | Some rawNulls \<Rightarrow> Some (Inr (FlatVector rawNulls size' values))))
      else if internalType = INT64 \<or> internalType = INT128 then
        (case nullsOf duckValidity size' of
           None \<Rightarrow> None
         | Some nullsView \<Rightarrow> Some (Inr (FlatVector nullsView size' (take size' duckData))))
      else Some (Inl (VeloxUnsupported ''Unsupported DuckDB LogicalType to ShortDecimal conversion'')))"
| "convertDuckToVeloxDecimal toVelox zero (DICTIONARY_VECTOR t internalType child selection)
       size' validity =
     (if \<not> size' \<le> length selection then None
      else
        (let maxIndex = maxSelectionIndex selection size'
         in convertDuckToVeloxDecimal toVelox zero child size' None))"
| "convertDuckToVeloxDecimal toVelox zero (OTHER_VECTOR t internalType) size' validity =
     Some (Inl (VeloxUnsupported ''Unsupported DuckDB vector encoding''))"

text \<open>
  \<open>toVeloxVector\<close>: the dispatch on the logical type of the column, and for a
  decimal on its physical storage.  The conversion of each case is the \<open>OP\<close> of the
  column, passed as \<open>toVelox\<close> and \<open>zero\<close>.
\<close>

definition toVeloxVector ::
  "('a \<Rightarrow> 'a) \<Rightarrow> 'a \<Rightarrow> vector_size_t \<Rightarrow> 'a DuckVector \<Rightarrow> (convert_error + 'a BaseVector) option" where
  "toVeloxVector toVelox zero size' duckVector =
     (if GetType duckVector \<in> {BOOLEAN, TINYINT, SMALLINT, INTEGER, BIGINT, HUGEINT, FLOAT, DOUBLE}
      then convert toVelox zero duckVector size' None
      else if GetType duckVector = DECIMAL then
        (if InternalType duckVector \<in> {INT16, INT32, INT64, INT128}
         then convertDuckToVeloxDecimal toVelox zero duckVector size' None
         else Some (Inl (runtime_error ''unrecognized internal type for decimal'')))
      else if GetType duckVector \<in> {VARCHAR, DATE, TIMESTAMP}
      then convert toVelox zero duckVector size' None
      else Some (Inl (runtime_error ''Unsupported vector type for conversion'')))"

text \<open>
  The dictionary scenario of the specification: the base \<open>[10, 20, 30]\<close> under the
  selection \<open>[2, 0, 2, 1]\<close>, as a column of the logical type \<open>t\<close> with the
  physical storage \<open>p\<close>; and the rows that a result reads.
\<close>

definition dictionary_column :: "LogicalTypeId \<Rightarrow> PhysicalType \<Rightarrow> nat DuckVector" where
  "dictionary_column t p =
     DICTIONARY_VECTOR t p (FLAT_VECTOR t p [10, 20, 30] None) [2, 0, 2, 1]"

definition rows_read :: "(convert_error + 'a BaseVector) option \<Rightarrow> vector_size_t \<Rightarrow> 'a option option list" where
  "rows_read result size' =
     (case result of Some (Inr v) \<Rightarrow> map (valueAt v) [0..<size'] | _ \<Rightarrow> [])"

section \<open>Properties of Int128 and of the Decimal operators\<close>

lemma sint_word_of_int_fits:
  "fits_int128 r \<Longrightarrow> sint (word_of_int r :: int128_t) = r"
  unfolding fits_int128_def
  by (simp add: signed_take_bit_int_eq_self_iff sint_sbintrunc')

lemma sint_fits: "fits_int128 (sint (w :: int128_t))"
  unfolding fits_int128_def
  using sint_range_size [of w] by (simp add: word_size)

lemma sint_word_of_int_eq_iff:
  "(sint (word_of_int r :: int128_t) = r) = fits_int128 r"
  using sint_word_of_int_fits [of r] sint_fits [of "word_of_int r"] by auto

lemma Int128_plus_Inr:
  "fits_int128 (sint a + sint b) \<Longrightarrow> Int128_plus a b = Inr (word_of_int (sint a + sint b))"
  by (simp add: Int128_plus_def builtin_add_overflow_def Let_def sint_word_of_int_eq_iff)

lemma Int128_plus_Inl:
  "\<not> fits_int128 (sint a + sint b) \<Longrightarrow> Int128_plus a b = Inl (VeloxRuntimeError [])"
  by (simp add: Int128_plus_def builtin_add_overflow_def Let_def sint_word_of_int_eq_iff)

lemma Int128_minus_Inr:
  "fits_int128 (sint a - sint b) \<Longrightarrow> Int128_minus a b = Inr (word_of_int (sint a - sint b))"
  by (simp add: Int128_minus_def builtin_sub_overflow_def Let_def sint_word_of_int_eq_iff)

lemma Int128_minus_Inl:
  "\<not> fits_int128 (sint a - sint b) \<Longrightarrow> Int128_minus a b = Inl (VeloxRuntimeError [])"
  by (simp add: Int128_minus_def builtin_sub_overflow_def Let_def sint_word_of_int_eq_iff)

lemma Int128_times_Inr:
  "fits_int128 (sint a * sint b) \<Longrightarrow> Int128_times a b = Inr (word_of_int (sint a * sint b))"
  by (simp add: Int128_times_def builtin_mul_overflow_def Let_def sint_word_of_int_eq_iff)

lemma Int128_times_Inl:
  "\<not> fits_int128 (sint a * sint b) \<Longrightarrow> Int128_times a b = Inl (VeloxRuntimeError [])"
  by (simp add: Int128_times_def builtin_mul_overflow_def Let_def sint_word_of_int_eq_iff)

lemma sint_plus_fits:
  "fits_int128 (sint a + sint b) \<Longrightarrow> sint (a + b :: int128_t) = sint a + sint b"
  using sint_word_of_int_fits [of "sint a + sint b"] by simp

lemma sint_minus_fits:
  "fits_int128 (sint a - sint b) \<Longrightarrow> sint (a - b :: int128_t) = sint a - sint b"
  using sint_word_of_int_fits [of "sint a - sint b"] by simp

lemma sint_times_fits:
  "fits_int128 (sint a * sint b) \<Longrightarrow> sint (a * b :: int128_t) = sint a * sint b"
  using sint_word_of_int_fits [of "sint a * sint b"] by simp

lemma Int128_plus_exact:
  "(\<exists>c. Int128_plus a b = Inr c \<and> sint c = sint a + sint b) = fits_int128 (sint a + sint b)"
proof (cases "fits_int128 (sint a + sint b)")
  case True
  then show ?thesis by (simp add: Int128_plus_Inr sint_plus_fits)
next
  case False
  then show ?thesis by (simp add: Int128_plus_Inl)
qed

lemma Int128_plus_fails:
  "(\<exists>e. Int128_plus a b = Inl e) = (\<not> fits_int128 (sint a + sint b))"
proof (cases "fits_int128 (sint a + sint b)")
  case True
  then show ?thesis by (simp add: Int128_plus_Inr)
next
  case False
  then show ?thesis by (simp add: Int128_plus_Inl)
qed

lemma Int128_minus_exact:
  "(\<exists>c. Int128_minus a b = Inr c \<and> sint c = sint a - sint b) = fits_int128 (sint a - sint b)"
proof (cases "fits_int128 (sint a - sint b)")
  case True
  then show ?thesis by (simp add: Int128_minus_Inr sint_minus_fits)
next
  case False
  then show ?thesis by (simp add: Int128_minus_Inl)
qed

lemma Int128_minus_fails:
  "(\<exists>e. Int128_minus a b = Inl e) = (\<not> fits_int128 (sint a - sint b))"
proof (cases "fits_int128 (sint a - sint b)")
  case True
  then show ?thesis by (simp add: Int128_minus_Inr)
next
  case False
  then show ?thesis by (simp add: Int128_minus_Inl)
qed

lemma Int128_times_exact:
  "(\<exists>c. Int128_times a b = Inr c \<and> sint c = sint a * sint b) = fits_int128 (sint a * sint b)"
proof (cases "fits_int128 (sint a * sint b)")
  case True
  then show ?thesis by (simp add: Int128_times_Inr sint_times_fits)
next
  case False
  then show ?thesis by (simp add: Int128_times_Inl)
qed

lemma Int128_times_fails:
  "(\<exists>e. Int128_times a b = Inl e) = (\<not> fits_int128 (sint a * sint b))"
proof (cases "fits_int128 (sint a * sint b)")
  case True
  then show ?thesis by (simp add: Int128_times_Inr)
next
  case False
  then show ?thesis by (simp add: Int128_times_Inl)
qed

lemma Int128_times_39_digits: "Int128_times (10 ^ 19) (10 ^ 19) = Inr (10 ^ 38)"
  by (simp add: Int128_times_def builtin_mul_overflow_def Let_def)

text \<open>
  Claim C9.  \<open>Int128\<close> addition, subtraction and multiplication return a value whose
  two's-complement reading is the exact mathematical result precisely when that result
  fits a signed 128-bit integer, and raise the check failure precisely when it does not.
  The operands are used as they are, and nothing but the 128-bit range is tested: the
  product of \<open>10^19\<close> with itself, a 39-digit number, is returned.
\<close>

theorem Int128_arithmetic_overflow_checked:
  "((\<exists>c. Int128_plus a b = Inr c \<and> sint c = sint a + sint b) = fits_int128 (sint a + sint b)) \<and>
   ((\<exists>e. Int128_plus a b = Inl e) = (\<not> fits_int128 (sint a + sint b))) \<and>
   ((\<exists>c. Int128_minus a b = Inr c \<and> sint c = sint a - sint b) = fits_int128 (sint a - sint b)) \<and>
   ((\<exists>e. Int128_minus a b = Inl e) = (\<not> fits_int128 (sint a - sint b))) \<and>
   ((\<exists>c. Int128_times a b = Inr c \<and> sint c = sint a * sint b) = fits_int128 (sint a * sint b)) \<and>
   ((\<exists>e. Int128_times a b = Inl e) = (\<not> fits_int128 (sint a * sint b))) \<and>
   Int128_times (10 ^ 19) (10 ^ 19) = Inr (10 ^ 38)"
  using Int128_plus_exact [of a b] Int128_plus_fails [of a b]
    Int128_minus_exact [of a b] Int128_minus_fails [of a b]
    Int128_times_exact [of a b] Int128_times_fails [of a b]
    Int128_times_39_digits
  by blast

lemma Decimal_eq_is_equality: "Decimal_eq a b = (a = b)"
  by (cases a, cases b) (simp add: Decimal_eq_def)

text \<open>
  Claim C8.  \<open>Decimal::operator==\<close> holds exactly when the operands agree on the
  unscaled value, the precision and the scale, that is, when they are the same triple;
  \<open>Decimal(12300, 5, 2)\<close> and \<open>Decimal(1230, 4, 1)\<close>, both denoting 123.00
  (\<open>12300 * 10^1 = 1230 * 10^2\<close>), are not equal under it.
\<close>

theorem Decimal_eq_compares_triple:
  "Decimal_eq a b =
     (getUnscaledValue a = getUnscaledValue b \<and> getPrecision a = getPrecision b \<and>
      getScale a = getScale b) \<and>
   Decimal_eq a b = (a = b) \<and>
   \<not> Decimal_eq (mkDecimal 12300 5 2) (mkDecimal 1230 4 1) \<and>
   sint (getUnscaledValue (mkDecimal 12300 5 2)) * 10 ^ 1 =
     sint (getUnscaledValue (mkDecimal 1230 4 1)) * 10 ^ 2"
proof -
  have "Decimal_eq a b =
     (getUnscaledValue a = getUnscaledValue b \<and> getPrecision a = getPrecision b \<and>
      getScale a = getScale b)"
    by (simp add: Decimal_eq_def)
  moreover have "Decimal_eq a b = (a = b)"
    by (rule Decimal_eq_is_equality)
  moreover have "\<not> Decimal_eq (mkDecimal 12300 5 2) (mkDecimal 1230 4 1)"
    by (simp add: Decimal_eq_def mkDecimal_def)
  moreover have "sint (getUnscaledValue (mkDecimal 12300 5 2)) * 10 ^ 1 =
     sint (getUnscaledValue (mkDecimal 1230 4 1)) * 10 ^ 2"
    by (simp add: mkDecimal_def)
  ultimately show ?thesis by blast
qed

text \<open>
  Claim C10.  \<open>Decimal::operator!=\<close>, \<open>operator<\<close>, \<open>operator<=\<close> and
  \<open>operator>\<close> return true for every pair of operands; so \<open>d != d\<close> holds although
  \<open>d == d\<close> holds too, and \<open>!=\<close> is not the negation of \<open>==\<close>.
\<close>

theorem Decimal_ordering_operators_constant:
  "Decimal_ne a b \<and> Decimal_lt a b \<and> Decimal_le a b \<and> Decimal_gt a b \<and>
   Decimal_ne d d \<and> Decimal_eq d d \<and>
   Decimal_ne d d \<noteq> (\<not> Decimal_eq d d)"
  by (simp add: Decimal_ne_def Decimal_lt_def Decimal_le_def Decimal_gt_def Decimal_eq_def)

section \<open>Properties of the decimal parser\<close>

subsection \<open>The checked operators inside the loop\<close>

lemma Int128_times_InrD: "Int128_times a b = Inr c \<Longrightarrow> sint c = sint a * sint b"
  by (auto simp add: Int128_times_def builtin_mul_overflow_def Let_def split: if_splits)

lemma Int128_plus_InrD: "Int128_plus a b = Inr c \<Longrightarrow> sint c = sint a + sint b"
  by (auto simp add: Int128_plus_def builtin_add_overflow_def Let_def split: if_splits)

lemma Int128_minus_InrD: "Int128_minus a b = Inr c \<Longrightarrow> sint c = sint a - sint b"
  by (auto simp add: Int128_minus_def builtin_sub_overflow_def Let_def split: if_splits)

lemma Int128_times_InlD: "Int128_times a b = Inl e \<Longrightarrow> e = VeloxRuntimeError []"
  by (auto simp add: Int128_times_def builtin_mul_overflow_def Let_def split: if_splits)

lemma Int128_plus_InlD: "Int128_plus a b = Inl e \<Longrightarrow> e = VeloxRuntimeError []"
  by (auto simp add: Int128_plus_def builtin_add_overflow_def Let_def split: if_splits)

lemma Int128_minus_InlD: "Int128_minus a b = Inl e \<Longrightarrow> e = VeloxRuntimeError []"
  by (auto simp add: Int128_minus_def builtin_sub_overflow_def Let_def split: if_splits)

lemma sint_digit_of:
  assumes "isdigit c"
  shows "0 \<le> sint (digit_of c) \<and> sint (digit_of c) \<le> 9"
proof -
  define k where "k = (of_char c :: nat) - 48"
  have "k \<le> 9" using assms unfolding k_def isdigit_def by arith
  then have "k \<in> {0, 1, 2, 3, 4, 5, 6, 7, 8, 9}" by auto
  moreover have "digit_of c = word_of_nat k" by (simp add: digit_of_def k_def)
  ultimately show ?thesis by auto
qed

lemma isdigit_not_sign:
  "isdigit c \<Longrightarrow> c \<noteq> CHR ''+'' \<and> c \<noteq> CHR ''-'' \<and> c \<noteq> CHR ''.''"
  by (auto simp add: isdigit_def)

lemma isdigit_zero: "isdigit CHR ''0''"
  by (simp add: isdigit_def)

subsection \<open>The string operations\<close>

lemma erase_leading: "erase s 0 (find_first_not_of s c) = dropWhile (\<lambda>x. x = c) s"
  by (induction s) (auto simp add: erase_def split: option.splits)

subsection \<open>The loop on a string of at most 255 characters\<close>

lemma unat_succ_8: "unat (pos :: 8 word) < 255 \<Longrightarrow> unat (pos + 1) = Suc (unat pos)"
  by (simp add: unat_word_ariths)

lemma parseLoop_eq_parseRest:
  "length str \<le> 255 \<Longrightarrow> unat pos \<le> length str \<Longrightarrow>
   parseLoop str isNegative pos result precision scale hasScale =
     Some (parseRest (drop (unat pos) str) isNegative result precision scale hasScale)"
proof (induction "length str - unat pos" arbitrary: pos isNegative result precision scale hasScale)
  case 0
  then have "\<not> unat pos < length str" and "drop (unat pos) str = []" by simp_all
  then show ?case by (subst parseLoop.simps) simp
next
  case (Suc n)
  then have lt: "unat pos < length str" by simp
  with Suc.prems have succ: "unat (pos + 1) = Suc (unat pos)"
    by (intro unat_succ_8) simp
  have n: "n = length str - unat (pos + 1)" using Suc.hyps(2) succ by simp
  have le: "unat (pos + 1) \<le> length str" using lt succ by simp
  have dr: "drop (unat pos) str = char_at str (unat pos) # drop (unat (pos + 1)) str"
    using lt succ by (simp add: char_at_def Cons_nth_drop_Suc)
  note IH = Suc.hyps(1) [OF n Suc.prems(1) le]
  show ?case
    by (subst parseLoop.simps) (simp add: lt dr IH split: sum.splits)
qed

subsection \<open>The loop on a string of 256 characters or more\<close>

lemma parseLoop_long_no_result:
  assumes ret: "parseLoop str isNegative pos result precision scale hasScale = Some y"
  shows "256 \<le> length str \<longrightarrow> (\<forall>r. y \<noteq> Inr r)"
proof (rule parseLoop.raw_induct
    [where P = "\<lambda>str isNegative pos result precision scale hasScale y.
                  256 \<le> length str \<longrightarrow> (\<forall>r. y \<noteq> Inr r)", OF _ ret], goal_cases)
  case (1 loop str isNegative pos result precision scale hasScale y)
  show ?case
  proof
    assume long: "256 \<le> length str"
    have "unat pos < 256" using unsigned_less [of pos, where ?'a = nat] by simp
    with long have lt: "unat pos < length str" by simp
    show "\<forall>r. y \<noteq> Inr r"
      using 1 long lt by (auto split: if_splits sum.splits)
  qed
qed

subsection \<open>The loop on the remaining characters\<close>

lemma parseRest_errors:
  "parseRest cs isNegative result precision scale hasScale = Inl e \<Longrightarrow>
   e = VeloxUserError ''Invalid decimal string'' \<or> e = VeloxRuntimeError []"
proof (induction cs arbitrary: result precision scale hasScale)
  case Nil
  then show ?case by simp
next
  case (Cons c cs)
  then show ?case
    by (auto split: if_splits sum.splits
        dest: Int128_times_InlD Int128_plus_InlD Int128_minus_InlD)
qed

lemma parseRest_offending:
  "\<not> digits_or_dots cs \<Longrightarrow> \<exists>e. parseRest cs isNegative result precision scale hasScale = Inl e"
proof (induction cs arbitrary: result precision scale hasScale)
  case Nil
  then show ?case by (simp add: digits_or_dots_def)
next
  case (Cons c cs)
  show ?case
  proof (cases "isdigit c \<or> c = CHR ''.''")
    case True
    with Cons.prems have "\<not> digits_or_dots cs" by (simp add: digits_or_dots_def)
    from Cons.IH [OF this] show ?thesis
      by (auto split: sum.splits)
  next
    case False
    then show ?thesis by simp
  qed
qed

lemma abs_times_ten_digit:
  fixes r d X :: int
  assumes "\<bar>r\<bar> < X" "0 \<le> d" "d \<le> 9"
  shows "\<bar>r * 10 + d\<bar> < 10 * X" "\<bar>r * 10 - d\<bar> < 10 * X" "\<bar>r * 10\<bar> < 10 * X"
  using assms by linarith+

lemma pow10_38_fits: "(k::nat) \<le> 38 \<Longrightarrow> \<bar>x::int\<bar> < 10 ^ k \<Longrightarrow> fits_int128 x"
proof -
  assume k: "k \<le> 38" and x: "\<bar>x\<bar> < 10 ^ k"
  have "(10::int) ^ k \<le> 10 ^ 38" using k by (intro power_increasing) simp_all
  also have "(10::int) ^ 38 < 2 ^ 127" by simp
  finally show ?thesis using x unfolding fits_int128_def by linarith
qed

lemma parseRest_no_overflow:
  "\<bar>sint result\<bar> < 10 ^ k \<Longrightarrow> k + digit_count cs \<le> 38 \<Longrightarrow>
   parseRest cs isNegative result precision scale hasScale \<noteq> Inl (VeloxRuntimeError m)"
proof (induction cs arbitrary: result precision scale hasScale k)
  case Nil
  then show ?case by simp
next
  case (Cons c cs)
  show ?case
  proof (cases "c = CHR ''.''")
    case True
    then have "digit_count (c # cs) = digit_count cs"
      by (simp add: digit_count_def isdigit_def)
    with Cons.prems Cons.IH [of result k precision scale True] True show ?thesis by simp
  next
    case notdot: False
    show ?thesis
    proof (cases "isdigit c")
      case False
      with notdot show ?thesis by simp
    next
      case True
      then have dc: "digit_count (c # cs) = Suc (digit_count cs)" by (simp add: digit_count_def)
      with Cons.prems have k: "Suc k \<le> 38" and k': "Suc k + digit_count cs \<le> 38" by simp_all
      from sint_digit_of [OF True] have d: "0 \<le> sint (digit_of c)" "sint (digit_of c) \<le> 9" by simp_all
      have s10: "sint (10 :: Int128) = 10" by simp
      from abs_times_ten_digit [OF Cons.prems(1) d]
      have b: "\<bar>sint result * 10 + sint (digit_of c)\<bar> < 10 ^ Suc k"
        "\<bar>sint result * 10 - sint (digit_of c)\<bar> < 10 ^ Suc k"
        "\<bar>sint result * 10\<bar> < 10 ^ Suc k" by simp_all
      have t: "Int128_times result 10 = Inr (word_of_int (sint result * sint (10 :: Int128)))"
        by (rule Int128_times_Inr) (use pow10_38_fits [OF k b(3)] s10 in simp)
      define product :: Int128 where "product = word_of_int (sint result * sint (10 :: Int128))"
      have sp: "sint product = sint result * 10"
        using Int128_times_InrD [OF t] s10 by (simp add: product_def)
      show ?thesis
      proof (cases isNegative)
        case True
        have m: "Int128_minus product (digit_of c) = Inr (word_of_int (sint product - sint (digit_of c)))"
          by (rule Int128_minus_Inr) (use pow10_38_fits [OF k b(2)] sp in simp)
        define r2 :: Int128 where "r2 = word_of_int (sint product - sint (digit_of c))"
        have "sint r2 = sint result * 10 - sint (digit_of c)"
          using Int128_minus_InrD [OF m] sp by (simp add: r2_def)
        with b have "\<bar>sint r2\<bar> < 10 ^ Suc k" by simp
        from Cons.IH [OF this k'] show ?thesis
          using notdot \<open>isdigit c\<close> True t m by (simp add: product_def r2_def)
      next
        case False
        have m: "Int128_plus product (digit_of c) = Inr (word_of_int (sint product + sint (digit_of c)))"
          by (rule Int128_plus_Inr) (use pow10_38_fits [OF k b(1)] sp in simp)
        define r2 :: Int128 where "r2 = word_of_int (sint product + sint (digit_of c))"
        have "sint r2 = sint result * 10 + sint (digit_of c)"
          using Int128_plus_InrD [OF m] sp by (simp add: r2_def)
        with b have "\<bar>sint r2\<bar> < 10 ^ Suc k" by simp
        from Cons.IH [OF this k'] show ?thesis
          using notdot \<open>isdigit c\<close> False t m by (simp add: product_def r2_def)
      qed
    qed
  qed
qed

lemma parseRest_invariant:
  "parseRest cs isNegative result precision scale hasScale = Inr (r', p', s') \<Longrightarrow>
   unat scale \<le> unat precision \<Longrightarrow> \<bar>sint result\<bar> < 10 ^ unat precision \<Longrightarrow>
   unat precision + length cs \<le> 255 \<Longrightarrow>
   unat s' \<le> unat p' \<and> \<bar>sint r'\<bar> < 10 ^ unat p'"
proof (induction cs arbitrary: result precision scale hasScale)
  case Nil
  then show ?case by simp
next
  case (Cons c cs)
  show ?case
  proof (cases "c = CHR ''.''")
    case True
    with Cons.prems Cons.IH [of result precision scale True] show ?thesis by simp
  next
    case notdot: False
    with Cons.prems(1) have dig: "isdigit c" by (auto split: if_splits)
    from Cons.prems(1) notdot dig obtain product r2 where
      t: "Int128_times result 10 = Inr product" and
      m: "(if isNegative then Int128_minus product (digit_of c)
           else Int128_plus product (digit_of c)) = Inr r2" and
      rec: "parseRest cs isNegative r2 (precision + 1)
              (if hasScale then scale + 1 else scale) hasScale = Inr (r', p', s')"
      by (auto split: sum.splits)
    from Cons.prems(4) have plt: "unat precision < 255" by simp
    then have p1: "unat (precision + 1) = Suc (unat precision)" by (rule unat_succ_8)
    from Cons.prems(2) plt have "unat scale < 255" by simp
    then have s1: "unat (scale + 1) = Suc (unat scale)" by (rule unat_succ_8)
    have sc: "unat (if hasScale then scale + 1 else scale) \<le> unat (precision + 1)"
      using Cons.prems(2) p1 s1 by simp
    have len: "unat (precision + 1) + length cs \<le> 255" using Cons.prems(4) p1 by simp
    from sint_digit_of [OF dig] have d: "0 \<le> sint (digit_of c)" "sint (digit_of c) \<le> 9" by simp_all
    have sp: "sint product = sint result * 10"
      using Int128_times_InrD [OF t] by simp
    have "sint r2 = sint result * 10 - sint (digit_of c) \<or> sint r2 = sint result * 10 + sint (digit_of c)"
      using m sp by (auto split: if_splits dest: Int128_minus_InrD Int128_plus_InrD)
    with abs_times_ten_digit [OF Cons.prems(3) d]
    have "\<bar>sint r2\<bar> < 10 ^ unat (precision + 1)" using p1 by auto
    from Cons.IH [OF rec sc this len] show ?thesis .
  qed
qed

lemma dropWhile_zero_digits_or_dots:
  "digits_or_dots (dropWhile (\<lambda>x. x = CHR ''0'') s) = digits_or_dots s"
  by (induction s) (simp_all add: digits_or_dots_def isdigit_zero)

lemma digit_count_dropWhile: "digit_count (dropWhile P s) \<le> digit_count s"
  by (induction s) (simp_all add: digit_count_def)

lemma length_dropWhile_le_255: "length s \<le> 255 \<Longrightarrow> length (dropWhile P s) \<le> 255"
  using length_dropWhile_le [of P s] by simp

subsection \<open>The runs of the loop that parseToInt128 starts\<close>

lemma parseLoop_start:
  "length str \<le> 255 \<Longrightarrow>
   parseLoop str isNegative 0 result 0 0 False = Some (parseRest str isNegative result 0 0 False)"
  using parseLoop_eq_parseRest [of str 0 isNegative result 0 0 False] by simp

lemma parseLoop_result_invariant:
  assumes "parseLoop str isNegative 0 0 0 0 False = Some (Inr (u, p, s))"
  shows "unat s \<le> unat p \<and> \<bar>sint u\<bar> < 10 ^ unat p"
proof (cases "256 \<le> length str")
  case True
  with parseLoop_long_no_result [OF assms] show ?thesis by simp
next
  case False
  then have le: "length str \<le> 255" by simp
  with assms have "parseRest str isNegative 0 0 0 False = Inr (u, p, s)"
    by (simp add: parseLoop_start)
  from parseRest_invariant [OF this] le show ?thesis by simp
qed

lemma parseLoop_offending:
  assumes len: "length s \<le> 255" and bad: "\<not> digits_or_dots s"
  shows "\<exists>e. parseLoop (dropWhile (\<lambda>x. x = CHR ''0'') s) isNegative 0 0 0 0 False = Some (Inl e) \<and>
           (e = VeloxUserError ''Invalid decimal string'' \<or> e = VeloxRuntimeError []) \<and>
           (digit_count s \<le> 38 \<longrightarrow> e = VeloxUserError ''Invalid decimal string'')"
proof -
  define s2 where "s2 = dropWhile (\<lambda>x. x = CHR ''0'') s"
  have len2: "length s2 \<le> 255" unfolding s2_def using len by (rule length_dropWhile_le_255)
  have bad2: "\<not> digits_or_dots s2" unfolding s2_def using bad
    by (simp add: dropWhile_zero_digits_or_dots)
  from parseRest_offending [OF bad2] obtain e where
    e: "parseRest s2 isNegative 0 0 0 False = Inl e" by blast
  have run: "parseLoop s2 isNegative 0 0 0 0 False = Some (Inl e)"
    using parseLoop_start [OF len2] e by simp
  have kind: "e = VeloxUserError ''Invalid decimal string'' \<or> e = VeloxRuntimeError []"
    using parseRest_errors [OF e] .
  have few: "e = VeloxUserError ''Invalid decimal string''" if "digit_count s \<le> 38"
  proof -
    have "digit_count s2 \<le> 38" unfolding s2_def
      using digit_count_dropWhile [of "\<lambda>x. x = CHR ''0''" s] that by simp
    then have "parseRest s2 isNegative 0 0 0 False \<noteq> Inl (VeloxRuntimeError [])"
      by (intro parseRest_no_overflow [where k = 0]) simp_all
    with e kind show ?thesis by auto
  qed
  from run kind few show ?thesis unfolding s2_def by blast
qed

subsection \<open>The precision and the scale that the loop counts\<close>

lemma digit_count_Cons:
  "digit_count (c # cs) = (if isdigit c then Suc (digit_count cs) else digit_count cs)"
  by (simp add: digit_count_def)

lemma fraction_digits_Cons:
  "fraction_digits (c # cs) = (if c = CHR ''.'' then digit_count cs else fraction_digits cs)"
  by (simp add: fraction_digits_def)

lemma parseRest_counts:
  "parseRest cs isNegative result precision scale hasScale = Inr (r', p', s') \<Longrightarrow>
   unat scale \<le> unat precision \<Longrightarrow> unat precision + length cs \<le> 255 \<Longrightarrow>
   unat p' = unat precision + digit_count cs \<and>
   unat s' = unat scale + (if hasScale then digit_count cs else fraction_digits cs)"
proof (induction cs arbitrary: result precision scale hasScale)
  case Nil
  then show ?case by (simp add: digit_count_def fraction_digits_def)
next
  case (Cons c cs)
  show ?case
  proof (cases "c = CHR ''.''")
    case True
    then have nd: "\<not> isdigit c" by (simp add: isdigit_def)
    from Cons.prems Cons.IH [of result precision scale True] True
    have "unat p' = unat precision + digit_count cs \<and> unat s' = unat scale + digit_count cs"
      by simp
    with True nd show ?thesis by (simp add: digit_count_Cons fraction_digits_Cons)
  next
    case notdot: False
    with Cons.prems(1) have dig: "isdigit c" by (auto split: if_splits)
    from Cons.prems(1) notdot dig obtain r2 where
      rec: "parseRest cs isNegative r2 (precision + 1)
              (if hasScale then scale + 1 else scale) hasScale = Inr (r', p', s')"
      by (auto split: sum.splits)
    from Cons.prems(3) have plt: "unat precision < 255" by simp
    then have p1: "unat (precision + 1) = Suc (unat precision)" by (rule unat_succ_8)
    from Cons.prems(2) plt have "unat scale < 255" by simp
    then have s1: "unat (scale + 1) = Suc (unat scale)" by (rule unat_succ_8)
    have sc: "unat (if hasScale then scale + 1 else scale) \<le> unat (precision + 1)"
      using Cons.prems(2) p1 s1 by simp
    have len: "unat (precision + 1) + length cs \<le> 255" using Cons.prems(3) p1 by simp
    from Cons.IH [OF rec sc len] p1 s1 notdot dig show ?thesis
      by (simp add: digit_count_Cons fraction_digits_Cons)
  qed
qed

lemma parseToInt128_loop_input:
  "parseToInt128 str result = Some (Inr x) \<Longrightarrow>
   \<exists>isNegative. parseLoop (loop_input str) isNegative 0 result 0 0 False = Some (Inr x)"
  by (auto simp add: parseToInt128_def loop_input_def erase_leading Let_def
      erase_def [of _ _ "Some _"] split: if_splits)

lemma parseLoop_result_counts:
  assumes "parseLoop str isNegative 0 0 0 0 False = Some (Inr (u, p, s))"
  shows "unat p = digit_count str \<and> unat s = fraction_digits str"
proof (cases "256 \<le> length str")
  case True
  with parseLoop_long_no_result [OF assms] show ?thesis by simp
next
  case False
  then have le: "length str \<le> 255" by simp
  with assms have "parseRest str isNegative 0 0 0 False = Inr (u, p, s)"
    by (simp add: parseLoop_start)
  from parseRest_counts [OF this] le show ?thesis by simp
qed

subsection \<open>The parser on concrete strings\<close>

lemma parse_39_digits:
  "parseStringToDecimal ''100000000000000000000000000000000000000'' =
     Some (Inr (mkDecimal (10 ^ 38) 39 0))"
  by code_simp

lemma conforming_39_digits:
  "digits_one_dot (strip_sign ''100000000000000000000000000000000000000'')"
  by code_simp

lemma digit_count_39_digits:
  "digit_count ''100000000000000000000000000000000000000'' = 39"
  by code_simp

lemma parse_two_dots: "parseStringToDecimal ''1.2.3'' = Some (Inr (mkDecimal 123 3 2))"
  by code_simp

lemma two_dots_not_in_grammar: "\<not> digits_one_dot (strip_sign ''1.2.3'')"
  by code_simp

lemma parse_overflow_before_letter:
  "parseStringToDecimal ''9999999999999999999999999999999999999999x'' =
     Some (Inl (VeloxUserError ''Decimal overflow''))"
  by code_simp

lemma letter_not_in_grammar:
  "\<not> digits_one_dot (strip_sign ''9999999999999999999999999999999999999999x'')"
  by code_simp

lemma parse_zero: "parseStringToDecimal ''0'' = Some (Inr (mkDecimal 0 0 0))"
  by code_simp

lemma zero_breaks_invariant: "\<not> Decimal_invariant (mkDecimal 0 0 0)"
  by (simp add: Decimal_invariant_def mkDecimal_def)

lemma parse_leading_zeros:
  "parseStringToDecimal ''-007.50'' = Some (Inr (mkDecimal (- 750) 3 2))"
  by code_simp

lemma loop_input_leading_zeros:
  "digit_count (loop_input ''-007.50'') = 3" "fraction_digits (loop_input ''-007.50'') = 2"
  by code_simp+

lemma letter_offends: "\<not> digits_or_dots (strip_sign ''12x'')"
  by code_simp

lemma letter_few_digits: "digit_count ''12x'' \<le> 38"
  by code_simp

subsection \<open>A string on which the loop runs forever\<close>

lemma zeros_after_dot_at:
  "i < 256 \<Longrightarrow> char_at zeros_after_dot i = (if i = 0 then CHR ''.'' else CHR ''0'')"
  by (auto simp add: zeros_after_dot_def char_at_def nth_Cons nth_append split: nat.splits)

lemma parseLoop_zeros_after_dot:
  assumes ret: "parseLoop str isNegative pos result precision scale hasScale = Some y"
  shows "\<not> (str = zeros_after_dot \<and> result = 0 \<and> \<not> isNegative)"
proof (rule parseLoop.raw_induct
    [where P = "\<lambda>str isNegative pos result precision scale hasScale y.
                  \<not> (str = zeros_after_dot \<and> result = 0 \<and> \<not> isNegative)", OF _ ret], goal_cases)
  case (1 loop str isNegative pos result precision scale hasScale y)
  show ?case
  proof
    assume a: "str = zeros_after_dot \<and> result = 0 \<and> \<not> isNegative"
    have p: "unat pos < 256" using unsigned_less [of pos, where ?'a = nat] by simp
    have lt: "unat pos < length str" using a p by (simp add: zeros_after_dot_def)
    have t: "Int128_times 0 10 = Inr 0" "Int128_plus 0 (digit_of CHR ''0'') = Inr 0"
      by (simp_all add: Int128_times_def builtin_mul_overflow_def Int128_plus_def
          builtin_add_overflow_def digit_of_def Let_def)
    have "\<exists>pos' p' s' h'. loop zeros_after_dot False pos' 0 p' s' h' = Some y"
      using 1(2) a lt zeros_after_dot_at [OF p] t
      by (cases "unat pos = 0") (auto simp add: isdigit_zero split: if_splits)
    then obtain pos' p' s' h' where "loop zeros_after_dot False pos' 0 p' s' h' = Some y"
      by blast
    from 1(1) [OF this] show False by simp
  qed
qed

lemma parse_runs_forever:
  "parseStringToDecimal (CHR ''0'' # zeros_after_dot) = None"
proof -
  have "parseLoop zeros_after_dot False 0 0 0 0 False = None"
    using parseLoop_zeros_after_dot [of zeros_after_dot False 0 0 0 0 False]
    by (cases "parseLoop zeros_after_dot False 0 0 0 0 False") auto
  moreover have
    "erase (CHR ''0'' # zeros_after_dot) 0 (find_first_not_of (CHR ''0'' # zeros_after_dot) CHR ''0'')
       = zeros_after_dot"
    by (simp add: zeros_after_dot_def erase_def)
  ultimately show ?thesis
    by (simp add: parseStringToDecimal_def parseToInt128_def char_at_def isdigit_zero)
qed

lemma zeros_after_dot_not_in_grammar:
  "\<not> digits_one_dot (strip_sign (CHR ''0'' # zeros_after_dot))"
  by (simp add: digits_one_dot_def digits_or_dots_def strip_sign_def zeros_after_dot_def
      isdigit_def)

subsection \<open>The claims about the parser\<close>

text \<open>
  Claim C2 says that every string of the grammar with more than 38 digits fails with an
  overflow error, as the comment at the head of \<open>parseStringToDecimal\<close> does
  (\<open>throws overflow exception if length is > 38\<close>).  The code counts no digits: only
  the 128-bit overflow of the accumulation is detected.  The string of 1 followed by 38
  zeros is in the grammar, has 39 digits, and is returned as the decimal with unscaled
  value \<open>10^38\<close> (below \<open>2^127\<close>), precision 39 and scale 0.
\<close>

theorem parseStringToDecimal_accepts_39_digits:
  "digits_one_dot (strip_sign ''100000000000000000000000000000000000000'') \<and>
   38 < digit_count ''100000000000000000000000000000000000000'' \<and>
   parseStringToDecimal ''100000000000000000000000000000000000000'' =
     Some (Inr (mkDecimal (10 ^ 38) 39 0))"
  using parse_39_digits conforming_39_digits digit_count_39_digits by simp

text \<open>
  Claim C3, as stated, fails on three inputs.  \<open>1.2.3\<close> has two separators and is
  returned as \<open>Decimal(123, 3, 2)\<close>: the loop sets \<open>hasScale\<close> at every separator
  and never tests it.  Forty nines followed by a letter fail with the overflow error,
  which the accumulation raises before the letter is read.  And on a zero, a separator,
  255 zeros and a letter the parser does not return at all.
\<close>

theorem parseStringToDecimal_not_only_validation:
  "(\<not> digits_one_dot (strip_sign ''1.2.3'') \<and>
    parseStringToDecimal ''1.2.3'' = Some (Inr (mkDecimal 123 3 2))) \<and>
   (\<not> digits_one_dot (strip_sign ''9999999999999999999999999999999999999999x'') \<and>
    parseStringToDecimal ''9999999999999999999999999999999999999999x'' =
      Some (Inl (VeloxUserError ''Decimal overflow'')) \<and>
    \<not> is_validation_error (VeloxUserError ''Decimal overflow'')) \<and>
   (\<not> digits_one_dot (strip_sign (CHR ''0'' # zeros_after_dot)) \<and>
    parseStringToDecimal (CHR ''0'' # zeros_after_dot) = None)"
  using parse_two_dots two_dots_not_in_grammar parse_overflow_before_letter
    letter_not_in_grammar parse_runs_forever zeros_after_dot_not_in_grammar
  by (simp add: is_validation_error_def)

text \<open>
  Claim C3, amended.  For every non-empty string of at most 255 characters:
  unless, after an optional single leading \<open>+\<close> or \<open>-\<close>, every remaining
  character is a decimal digit or a separator \<open>.\<close> (any number of separators),
  \<open>parseStringToDecimal\<close> fails, with a validation error or with the overflow error;
  and with a validation error whenever the string has at most 38 digits.
\<close>

theorem parseStringToDecimal_rejects_offending_character:
  assumes ne: "str \<noteq> []" and len: "length str \<le> 255"
    and bad: "\<not> digits_or_dots (strip_sign str)"
  shows "\<exists>e. parseStringToDecimal str = Some (Inl e) \<and>
           (is_validation_error e \<or> is_overflow_error e) \<and>
           (digit_count str \<le> 38 \<longrightarrow> is_validation_error e)"
proof -
  from ne obtain c cs where str: "str = c # cs" by (cases str) auto
  have c0: "char_at str 0 = c" by (simp add: str char_at_def)
  show ?thesis
  proof (cases "isdigit c")
    case True
    then have "strip_sign str = str" using isdigit_not_sign [OF True] by (simp add: str strip_sign_def)
    with bad have bad': "\<not> digits_or_dots str" by simp
    from parseLoop_offending [OF len bad', of False] obtain e where
      e: "parseLoop (dropWhile (\<lambda>x. x = CHR ''0'') str) False 0 0 0 0 False = Some (Inl e)"
        "e = VeloxUserError ''Invalid decimal string'' \<or> e = VeloxRuntimeError []"
        "digit_count str \<le> 38 \<longrightarrow> e = VeloxUserError ''Invalid decimal string''"
      by blast
    have "parseToInt128 str 0 = Some (Inl e)"
      using e(1) True c0 by (simp add: parseToInt128_def erase_leading)
    with e(2,3) ne show ?thesis
      by (auto simp add: parseStringToDecimal_def is_validation_error_def is_overflow_error_def)
  next
    case nodigit: False
    show ?thesis
    proof (cases "c = CHR ''-'' \<or> c = CHR ''+''")
      case False
      then have "parseToInt128 str 0 = Some (Inl (VeloxUserError ''Illegal decimal value''))"
        using nodigit c0 by (simp add: parseToInt128_def)
      with ne show ?thesis
        by (simp add: parseStringToDecimal_def is_validation_error_def)
    next
      case True
      then have "strip_sign str = cs" by (auto simp add: str strip_sign_def)
      with bad have bad': "\<not> digits_or_dots cs" by simp
      have len': "length cs \<le> 255" using len str by simp
      from parseLoop_offending [OF len' bad', of "c = CHR ''-''"] obtain e where
        e: "parseLoop (dropWhile (\<lambda>x. x = CHR ''0'') cs) (c = CHR ''-'') 0 0 0 0 False = Some (Inl e)"
          "e = VeloxUserError ''Invalid decimal string'' \<or> e = VeloxRuntimeError []"
          "digit_count cs \<le> 38 \<longrightarrow> e = VeloxUserError ''Invalid decimal string''"
        by blast
      have dc: "digit_count cs \<le> digit_count str" by (simp add: str digit_count_def)
      have "parseToInt128 str 0 = Some (Inl e)"
        using e(1) True nodigit c0 by (simp add: parseToInt128_def erase_leading erase_def [of _ _ "Some _"] str Let_def)
      with e(2,3) ne dc show ?thesis
        by (auto simp add: parseStringToDecimal_def is_validation_error_def is_overflow_error_def)
    qed
  qed
qed

theorem parseStringToDecimal_rejects_offending_character_witness:
  "''12x'' \<noteq> [] \<and> length ''12x'' \<le> 255 \<and> \<not> digits_or_dots (strip_sign ''12x'') \<and>
   digit_count ''12x'' \<le> 38 \<and>
   (\<exists>e. parseStringToDecimal ''12x'' = Some (Inl e) \<and> is_validation_error e)"
proof -
  have h: "''12x'' \<noteq> []" "length ''12x'' \<le> 255" by simp_all
  from parseStringToDecimal_rejects_offending_character [OF h letter_offends]
    letter_offends letter_few_digits h
  show ?thesis by blast
qed

text \<open>
  Claim C4, as stated, fails on the string \<open>0\<close>: the leading zeros are erased up to
  the end of the string, no digit is left for the loop, and the decimal returned has
  precision 0, outside \<open>[1, 38]\<close>.
\<close>

theorem parseStringToDecimal_zero_precision:
  "parseStringToDecimal ''0'' = Some (Inr (mkDecimal 0 0 0)) \<and>
   \<not> Decimal_invariant (mkDecimal 0 0 0)"
  using parse_zero zero_breaks_invariant by simp

text \<open>
  Claim C4, amended.  For every decimal that \<open>parseStringToDecimal\<close> returns: the
  precision is the number of digits of the string that is left once the optional sign
  and the leading zeros are erased, and can be 0; the scale is the number of digits
  after the first separator of that string, and lies in \<open>[0, precision]\<close>; and the
  unscaled value is below \<open>10^precision\<close> in absolute value.
\<close>

theorem parseStringToDecimal_result_invariant:
  assumes "parseStringToDecimal str = Some (Inr d)"
  shows "unat (getPrecision d) = digit_count (loop_input str) \<and>
         unat (getScale d) = fraction_digits (loop_input str) \<and>
         unat (getScale d) \<le> unat (getPrecision d) \<and>
         \<bar>sint (getUnscaledValue d)\<bar> < 10 ^ unat (getPrecision d)"
proof -
  from assms obtain u p s where
    run: "parseToInt128 str 0 = Some (Inr (u, p, s))" and d: "d = mkDecimal u p s"
    by (auto simp add: parseStringToDecimal_def split: if_splits option.splits sum.splits error.splits)
  from parseToInt128_loop_input [OF run] obtain neg where
    loop: "parseLoop (loop_input str) neg 0 0 0 0 False = Some (Inr (u, p, s))" by blast
  from parseLoop_result_invariant [OF loop] parseLoop_result_counts [OF loop] show ?thesis
    by (simp add: d mkDecimal_def)
qed

theorem parseStringToDecimal_result_invariant_witness:
  "parseStringToDecimal ''-007.50'' = Some (Inr (mkDecimal (- 750) 3 2)) \<and>
   unat (getPrecision (mkDecimal (- 750) 3 2)) = digit_count (loop_input ''-007.50'') \<and>
   digit_count (loop_input ''-007.50'') = 3 \<and>
   unat (getScale (mkDecimal (- 750) 3 2)) = fraction_digits (loop_input ''-007.50'') \<and>
   fraction_digits (loop_input ''-007.50'') = 2 \<and>
   unat (getScale (mkDecimal (- 750) 3 2)) \<le> unat (getPrecision (mkDecimal (- 750) 3 2)) \<and>
   \<bar>sint (getUnscaledValue (mkDecimal (- 750) 3 2))\<bar>
     < 10 ^ unat (getPrecision (mkDecimal (- 750) 3 2))"
  using parseStringToDecimal_result_invariant [OF parse_leading_zeros]
    parse_leading_zeros loop_input_leading_zeros
  by blast

section \<open>Properties of the flattening\<close>

subsection \<open>The loops of flattenBuffers\<close>

lemma writeElementIndices_result:
  "i \<le> sz \<Longrightarrow> offset + sz \<le> 2 ^ 31 \<Longrightarrow> e + (sz - i) \<le> length buf \<Longrightarrow> length buf < 2 ^ 31 \<Longrightarrow>
   \<exists>buf'. writeElementIndices offset sz i e buf = Some (e + (sz - i), buf') \<and>
          length buf' = length buf \<and>
          (\<forall>j < length buf. buf' ! j =
             (if e \<le> j \<and> j < e + (sz - i) then offset + i + (j - e) else buf ! j))"
proof (induction offset sz i e buf rule: writeElementIndices.induct)
  case (1 offset sz i e buf)
  show ?case
  proof (cases "i < sz")
    case False
    with "1.prems" show ?thesis by (subst writeElementIndices.simps) simp
  next
    case True
    have a1: "add32 offset i = Some (offset + i)" using True "1.prems" by (simp add: add32_def)
    have w: "write_at buf e (offset + i) = Some (buf[e := offset + i])"
      using True "1.prems" by (simp add: write_at_def)
    have a2: "add32 e 1 = Some (Suc e)" using True "1.prems" by (simp add: add32_def)
    have "\<exists>buf'. writeElementIndices offset sz (Suc i) (Suc e) (buf[e := offset + i]) =
              Some (Suc e + (sz - Suc i), buf') \<and>
            length buf' = length (buf[e := offset + i]) \<and>
            (\<forall>j < length (buf[e := offset + i]). buf' ! j =
               (if Suc e \<le> j \<and> j < Suc e + (sz - Suc i) then offset + Suc i + (j - Suc e)
                else buf[e := offset + i] ! j))"
      using True "1.prems" by (intro "1.IH" [OF True a1 w a2]) simp_all
    then obtain buf' where
      r: "writeElementIndices offset sz (Suc i) (Suc e) (buf[e := offset + i]) =
              Some (Suc e + (sz - Suc i), buf')" and
      l: "length buf' = length buf" and
      c: "\<forall>j < length buf. buf' ! j =
               (if Suc e \<le> j \<and> j < Suc e + (sz - Suc i) then offset + Suc i + (j - Suc e)
                else buf[e := offset + i] ! j)"
      by auto
    have res: "writeElementIndices offset sz i e buf = Some (e + (sz - i), buf')"
      using True a1 w a2 r by (subst writeElementIndices.simps) (simp add: Suc_diff_Suc)
    have "\<forall>j < length buf. buf' ! j =
             (if e \<le> j \<and> j < e + (sz - i) then offset + i + (j - e) else buf ! j)"
    proof (intro allI impI)
      fix j assume j: "j < length buf"
      show "buf' ! j = (if e \<le> j \<and> j < e + (sz - i) then offset + i + (j - e) else buf ! j)"
      proof (cases "j = e")
        case True
        with c j \<open>i < sz\<close> show ?thesis by auto
      next
        case False
        with c j \<open>i < sz\<close> show ?thesis by (auto simp add: Suc_diff_Suc)
      qed
    qed
    with res l show ?thesis by blast
  qed
qed

lemma flattenRow_null:
  "newNullAt nn r = Some True \<Longrightarrow> flattenRow nn idx ss os r st = Some st"
  by (cases st) (simp add: flattenRow_def)

lemma flattenRow_nonnull:
  assumes "newNullAt nn r = Some False"
    and "r < length idx" "idx ! r < length ss" "idx ! r < length os"
    and "os ! (idx ! r) + ss ! (idx ! r) \<le> 2 ^ 31"
    and "r < length nS" "r < length nO"
    and "e + ss ! (idx ! r) \<le> length eI" "length eI < 2 ^ 31"
  shows "\<exists>eI'. flattenRow nn idx ss os r (e, eI, nS, nO) =
             Some (e + ss ! (idx ! r), eI', nS[r := ss ! (idx ! r)], nO[r := e]) \<and>
           length eI' = length eI \<and>
           (\<forall>j < length eI. eI' ! j =
              (if e \<le> j \<and> j < e + ss ! (idx ! r) then os ! (idx ! r) + (j - e) else eI ! j))"
proof -
  from writeElementIndices_result [of 0 "ss ! (idx ! r)" "os ! (idx ! r)" e eI] assms
  obtain eI' where
    w: "writeElementIndices (os ! (idx ! r)) (ss ! (idx ! r)) 0 e eI = Some (e + ss ! (idx ! r), eI')"
    and l: "length eI' = length eI"
    and c: "\<forall>j < length eI. eI' ! j =
              (if e \<le> j \<and> j < e + ss ! (idx ! r) then os ! (idx ! r) + (j - e) else eI ! j)"
    by auto
  have "flattenRow nn idx ss os r (e, eI, nS, nO) =
             Some (e + ss ! (idx ! r), eI', nS[r := ss ! (idx ! r)], nO[r := e])"
    using assms w by (simp add: flattenRow_def read_at_def write_at_def)
  with l c show ?thesis by blast
qed

lemma applyToSelected_flattenRow:
  assumes "distinct rs"
    and "\<forall>r\<in>set rs. \<exists>b. newNullAt nn r = Some b"
    and "\<forall>r\<in>set rs. newNullAt nn r = Some False \<longrightarrow>
           r < length idx \<and> idx ! r < length ss \<and> idx ! r < length os \<and>
           os ! (idx ! r) + ss ! (idx ! r) \<le> 2 ^ 31"
    and "\<forall>r\<in>set rs. r < length nS \<and> r < length nO"
    and "e + sum_list (map (\<lambda>r. ss ! (idx ! r)) (filter (\<lambda>r. newNullAt nn r = Some False) rs))
           \<le> length eI"
    and "length eI < 2 ^ 31"
  shows "\<exists>e' eI' nS' nO'.
           applyToSelected (flattenRow nn idx ss os) rs (e, eI, nS, nO) = Some (e', eI', nS', nO') \<and>
           e' = e + sum_list (map (\<lambda>r. ss ! (idx ! r)) (filter (\<lambda>r. newNullAt nn r = Some False) rs)) \<and>
           length eI' = length eI \<and> length nS' = length nS \<and> length nO' = length nO \<and>
           (\<forall>j < e. eI' ! j = eI ! j) \<and>
           (\<forall>r. r \<notin> set rs \<longrightarrow> nS' ! r = nS ! r \<and> nO' ! r = nO ! r) \<and>
           (\<forall>r\<in>set rs. newNullAt nn r = Some False \<longrightarrow>
              nS' ! r = ss ! (idx ! r) \<and> e \<le> nO' ! r \<and> nO' ! r + ss ! (idx ! r) \<le> e' \<and>
              (\<forall>i < ss ! (idx ! r). eI' ! (nO' ! r + i) = os ! (idx ! r) + i))"
  using assms
proof (induction rs arbitrary: e eI nS nO)
  case Nil
  then show ?case by simp
next
  case (Cons r rs)
  let ?sz = "\<lambda>r. ss ! (idx ! r)"
  let ?nn = "\<lambda>r. newNullAt nn r = Some False"
  let ?sum = "sum_list (map ?sz (filter ?nn rs))"
  from Cons.prems(1) have nin: "r \<notin> set rs" and dist: "distinct rs" by simp_all
  from Cons.prems(2) have nulls: "\<forall>r\<in>set rs. \<exists>b. newNullAt nn r = Some b" by simp
  from Cons.prems(3) have rng: "\<forall>r\<in>set rs. newNullAt nn r = Some False \<longrightarrow>
           r < length idx \<and> idx ! r < length ss \<and> idx ! r < length os \<and>
           os ! (idx ! r) + ss ! (idx ! r) \<le> 2 ^ 31" by simp
  from Cons.prems(2) obtain b where b: "newNullAt nn r = Some b" by auto
  show ?case
  proof (cases b)
    case True
    with b have null: "newNullAt nn r = Some True" by simp
    then have step: "flattenRow nn idx ss os r (e, eI, nS, nO) = Some (e, eI, nS, nO)"
      by (rule flattenRow_null)
    have lens: "\<forall>r\<in>set rs. r < length nS \<and> r < length nO" using Cons.prems(4) by simp
    have room: "e + ?sum \<le> length eI" using Cons.prems(5) null by simp
    from Cons.IH [OF dist nulls rng lens room Cons.prems(6)]
    obtain e' eI' nS' nO' where
      run: "applyToSelected (flattenRow nn idx ss os) rs (e, eI, nS, nO) = Some (e', eI', nS', nO')"
      and e': "e' = e + ?sum"
      and len: "length eI' = length eI" "length nS' = length nS" "length nO' = length nO"
      and low: "\<forall>j < e. eI' ! j = eI ! j"
      and out: "\<forall>r. r \<notin> set rs \<longrightarrow> nS' ! r = nS ! r \<and> nO' ! r = nO ! r"
      and inn: "\<forall>r\<in>set rs. ?nn r \<longrightarrow>
              nS' ! r = ?sz r \<and> e \<le> nO' ! r \<and> nO' ! r + ?sz r \<le> e' \<and>
              (\<forall>i < ?sz r. eI' ! (nO' ! r + i) = os ! (idx ! r) + i)"
      by blast
    have run': "applyToSelected (flattenRow nn idx ss os) (r # rs) (e, eI, nS, nO) = Some (e', eI', nS', nO')"
      using step run by simp
    have e'': "e' = e + sum_list (map ?sz (filter ?nn (r # rs)))" using e' null by simp
    have out': "\<forall>r'. r' \<notin> set (r # rs) \<longrightarrow> nS' ! r' = nS ! r' \<and> nO' ! r' = nO ! r'"
      using out by simp
    have inn': "\<forall>r'\<in>set (r # rs). ?nn r' \<longrightarrow>
              nS' ! r' = ?sz r' \<and> e \<le> nO' ! r' \<and> nO' ! r' + ?sz r' \<le> e' \<and>
              (\<forall>i < ?sz r'. eI' ! (nO' ! r' + i) = os ! (idx ! r') + i)"
      using inn null by simp
    from run' e'' len low out' inn' show ?thesis by blast
  next
    case False
    with b have nonnull: "?nn r" by simp
    from Cons.prems(3) nonnull have r_rng: "r < length idx" "idx ! r < length ss" "idx ! r < length os"
      "os ! (idx ! r) + ss ! (idx ! r) \<le> 2 ^ 31" by simp_all
    from Cons.prems(4) have r_len: "r < length nS" "r < length nO" by simp_all
    have sum_eq: "sum_list (map ?sz (filter ?nn (r # rs))) = ?sz r + ?sum" using nonnull by simp
    with Cons.prems(5) have r_room: "e + ?sz r \<le> length eI" by simp
    from flattenRow_nonnull [OF nonnull r_rng r_len r_room Cons.prems(6)]
    obtain eI1 where
      step: "flattenRow nn idx ss os r (e, eI, nS, nO) =
               Some (e + ?sz r, eI1, nS[r := ?sz r], nO[r := e])"
      and l1: "length eI1 = length eI"
      and c1: "\<forall>j < length eI. eI1 ! j =
                 (if e \<le> j \<and> j < e + ?sz r then os ! (idx ! r) + (j - e) else eI ! j)"
      by blast
    have lens: "\<forall>r'\<in>set rs. r' < length (nS[r := ?sz r]) \<and> r' < length (nO[r := e])"
      using Cons.prems(4) by simp
    have room: "(e + ?sz r) + ?sum \<le> length eI1" using Cons.prems(5) sum_eq l1 by simp
    have small: "length eI1 < 2 ^ 31" using Cons.prems(6) l1 by simp
    from Cons.IH [OF dist nulls rng lens room small]
    obtain e' eI' nS' nO' where
      run: "applyToSelected (flattenRow nn idx ss os) rs (e + ?sz r, eI1, nS[r := ?sz r], nO[r := e])
              = Some (e', eI', nS', nO')"
      and e': "e' = (e + ?sz r) + ?sum"
      and len: "length eI' = length eI1" "length nS' = length (nS[r := ?sz r])"
               "length nO' = length (nO[r := e])"
      and low: "\<forall>j < e + ?sz r. eI' ! j = eI1 ! j"
      and out: "\<forall>r'. r' \<notin> set rs \<longrightarrow> nS' ! r' = nS[r := ?sz r] ! r' \<and> nO' ! r' = nO[r := e] ! r'"
      and inn: "\<forall>r'\<in>set rs. ?nn r' \<longrightarrow>
              nS' ! r' = ?sz r' \<and> e + ?sz r \<le> nO' ! r' \<and> nO' ! r' + ?sz r' \<le> e' \<and>
              (\<forall>i < ?sz r'. eI' ! (nO' ! r' + i) = os ! (idx ! r') + i)"
      by blast
    have run': "applyToSelected (flattenRow nn idx ss os) (r # rs) (e, eI, nS, nO) = Some (e', eI', nS', nO')"
      using step run by simp
    have e'': "e' = e + sum_list (map ?sz (filter ?nn (r # rs)))" using e' sum_eq by simp
    have len': "length eI' = length eI" "length nS' = length nS" "length nO' = length nO"
      using len l1 by simp_all
    have low': "\<forall>j < e. eI' ! j = eI ! j"
    proof (intro allI impI)
      fix j assume j: "j < e"
      then have "eI' ! j = eI1 ! j" using low by simp
      also have "\<dots> = eI ! j" using c1 j r_room by simp
      finally show "eI' ! j = eI ! j" .
    qed
    have out': "\<forall>r'. r' \<notin> set (r # rs) \<longrightarrow> nS' ! r' = nS ! r' \<and> nO' ! r' = nO ! r'"
      using out by simp
    have here: "nS' ! r = ?sz r \<and> e \<le> nO' ! r \<and> nO' ! r + ?sz r \<le> e' \<and>
              (\<forall>i < ?sz r. eI' ! (nO' ! r + i) = os ! (idx ! r) + i)"
    proof -
      from out nin r_len have s: "nS' ! r = ?sz r" and o: "nO' ! r = e" by simp_all
      have "eI' ! (e + i) = os ! (idx ! r) + i" if "i < ?sz r" for i
      proof -
        have "eI' ! (e + i) = eI1 ! (e + i)" using low that by simp
        also have "\<dots> = os ! (idx ! r) + i" using c1 that r_room by simp
        finally show ?thesis .
      qed
      with s o e' show ?thesis by simp
    qed
    have inn': "\<forall>r'\<in>set (r # rs). ?nn r' \<longrightarrow>
              nS' ! r' = ?sz r' \<and> e \<le> nO' ! r' \<and> nO' ! r' + ?sz r' \<le> e' \<and>
              (\<forall>i < ?sz r'. eI' ! (nO' ! r' + i) = os ! (idx ! r') + i)"
    proof (intro ballI impI)
      fix r' assume r': "r' \<in> set (r # rs)" and n': "?nn r'"
      show "nS' ! r' = ?sz r' \<and> e \<le> nO' ! r' \<and> nO' ! r' + ?sz r' \<le> e' \<and>
              (\<forall>i < ?sz r'. eI' ! (nO' ! r' + i) = os ! (idx ! r') + i)"
      proof (cases "r' = r")
        case True
        with here show ?thesis by simp
      next
        case False
        with r' have "r' \<in> set rs" by simp
        with inn n' have "nS' ! r' = ?sz r' \<and> e + ?sz r \<le> nO' ! r' \<and> nO' ! r' + ?sz r' \<le> e' \<and>
              (\<forall>i < ?sz r'. eI' ! (nO' ! r' + i) = os ! (idx ! r') + i)" by blast
        then show ?thesis by simp
      qed
    qed
    from run' e'' len' low' out' inn' show ?thesis by blast
  qed
qed

lemma isNullAt_rowNull:
  "(case dv_nulls d of None \<Rightarrow> True | Some ns \<Rightarrow> r < length ns) \<Longrightarrow>
   isNullAt d r = Some (rowNull d r)"
  by (cases "dv_nulls d") (simp_all add: isNullAt_def rowNull_def read_at_def)

lemma applyToSelected_setNull:
  assumes "distinct rs" and "\<forall>r\<in>set rs. r < length buf \<and> r < length ns"
    and "dv_nulls d = Some ns"
  shows "\<exists>buf'. applyToSelected
             (\<lambda>row rawNulls. case isNullAt d row of None \<Rightarrow> None
                | Some isNull \<Rightarrow> setNull rawNulls row isNull) rs buf = Some buf' \<and>
           length buf' = length buf \<and>
           (\<forall>r\<in>set rs. buf' ! r = ns ! r) \<and>
           (\<forall>r. r \<notin> set rs \<longrightarrow> buf' ! r = buf ! r)"
  using assms(1,2)
proof (induction rs arbitrary: buf)
  case Nil
  then show ?case by simp
next
  case (Cons r rs)
  let ?f = "\<lambda>row rawNulls. case isNullAt d row of None \<Rightarrow> None
                | Some isNull \<Rightarrow> setNull rawNulls row isNull"
  from Cons.prems have r: "r < length buf" "r < length ns" "r \<notin> set rs" "distinct rs" by simp_all
  have step: "?f r buf = Some (buf[r := ns ! r])"
    using r assms(3) by (simp add: isNullAt_def read_at_def setNull_def write_at_def)
  have "\<forall>r'\<in>set rs. r' < length (buf[r := ns ! r]) \<and> r' < length ns" using Cons.prems by simp
  from Cons.IH [OF r(4) this] obtain buf' where
    run: "applyToSelected ?f rs (buf[r := ns ! r]) = Some buf'"
    and len: "length buf' = length buf"
    and inn: "\<forall>r'\<in>set rs. buf' ! r' = ns ! r'"
    and out: "\<forall>r'. r' \<notin> set rs \<longrightarrow> buf' ! r' = buf[r := ns ! r] ! r'"
    by auto
  have "applyToSelected ?f (r # rs) buf = Some buf'" using step run by simp
  moreover have "\<forall>r'\<in>set (r # rs). buf' ! r' = ns ! r'" using inn out r by auto
  moreover have "\<forall>r'. r' \<notin> set (r # rs) \<longrightarrow> buf' ! r' = buf ! r'" using out by auto
  ultimately show ?case using len by blast
qed

lemma applyToSelected_count:
  assumes "\<forall>r\<in>set rs. (case dv_nulls d of None \<Rightarrow> True | Some ns \<Rightarrow> r < length ns) \<and>
             (rowNull d r \<or> (r < length (dv_indices d) \<and> dv_indices d ! r < length ss))"
    and "c + sum_list (map (\<lambda>r. ss ! (dv_indices d ! r)) (filter (\<lambda>r. \<not> rowNull d r) rs)) < 2 ^ 31"
  shows "applyToSelected
           (\<lambda>row count.
              case isNullAt d row of
                None \<Rightarrow> None
              | Some True \<Rightarrow> Some count
              | Some False \<Rightarrow>
                 (case read_at (dv_indices d) row of
                    None \<Rightarrow> None
                  | Some index \<Rightarrow>
                     (case read_at ss index of
                        None \<Rightarrow> None
                      | Some sz \<Rightarrow> add32 count sz))) rs c =
         Some (c + sum_list (map (\<lambda>r. ss ! (dv_indices d ! r)) (filter (\<lambda>r. \<not> rowNull d r) rs)))"
  using assms
proof (induction rs arbitrary: c)
  case Nil
  then show ?case by simp
next
  case (Cons r rs)
  from Cons.prems(1) have n: "isNullAt d r = Some (rowNull d r)"
    by (intro isNullAt_rowNull) simp
  show ?case
  proof (cases "rowNull d r")
    case True
    with Cons.prems Cons.IH [of c] n show ?thesis by simp
  next
    case False
    with Cons.prems(1) have rr: "r < length (dv_indices d)" "dv_indices d ! r < length ss" by auto
    from Cons.prems(2) False have room: "c + ss ! (dv_indices d ! r) < 2 ^ 31" by simp
    from Cons.prems False
    have "c + ss ! (dv_indices d ! r) +
            sum_list (map (\<lambda>r. ss ! (dv_indices d ! r)) (filter (\<lambda>r. \<not> rowNull d r) rs)) < 2 ^ 31"
      by (simp add: add.assoc)
    with Cons.IH [of "c + ss ! (dv_indices d ! r)"] Cons.prems(1)
    have "applyToSelected
           (\<lambda>row count.
              case isNullAt d row of
                None \<Rightarrow> None
              | Some True \<Rightarrow> Some count
              | Some False \<Rightarrow>
                 (case read_at (dv_indices d) row of
                    None \<Rightarrow> None
                  | Some index \<Rightarrow>
                     (case read_at ss index of
                        None \<Rightarrow> None
                      | Some sz \<Rightarrow> add32 count sz))) rs (c + ss ! (dv_indices d ! r)) =
         Some (c + ss ! (dv_indices d ! r) +
            sum_list (map (\<lambda>r. ss ! (dv_indices d ! r)) (filter (\<lambda>r. \<not> rowNull d r) rs)))"
      by simp
    with n False rr room show ?thesis
      by (simp add: read_at_def add32_def add.assoc)
  qed
qed

subsection \<open>The buffers that a flattening builds\<close>

lemma valid_rows_distinct: "valid_rows rows \<Longrightarrow> distinct (sv_rows rows)"
  by (simp add: valid_rows_def strict_sorted_iff)

lemma valid_rows_bound: "valid_rows rows \<Longrightarrow> r \<in> set (sv_rows rows) \<Longrightarrow> r < sv_end rows \<and> r < sv_size rows"
  by (auto simp add: valid_rows_def list_all_iff)

lemma flattenable_row:
  "flattenable rows d \<Longrightarrow> r \<in> set (sv_rows rows) \<Longrightarrow> row_in_range d r"
  by (simp add: flattenable_def list_all_iff)

lemma flattenNulls_result:
  assumes v: "valid_rows rows"
    and n: "\<forall>r\<in>set (sv_rows rows). (case dv_nulls d of None \<Rightarrow> True | Some ns \<Rightarrow> r < length ns)"
  shows "\<exists>nn. flattenNulls rows d = Some nn \<and>
           (\<forall>r\<in>set (sv_rows rows). newNullAt nn r = Some (rowNull d r))"
proof (cases "dv_nulls d")
  case None
  then have "flattenNulls rows d = Some None" by (simp add: flattenNulls_def mayHaveNulls_def)
  moreover have "\<forall>r\<in>set (sv_rows rows). newNullAt None r = Some (rowNull d r)"
    using None by (simp add: newNullAt_def rowNull_def)
  ultimately show ?thesis by blast
next
  case (Some ns)
  have rng: "\<forall>r\<in>set (sv_rows rows). r < length (allocate_bool (sv_size rows)) \<and> r < length ns"
    using n Some valid_rows_bound [OF v] by (simp add: allocate_bool_def)
  from applyToSelected_setNull [OF valid_rows_distinct [OF v] rng Some]
  obtain buf where
    run: "applyToSelected
             (\<lambda>row rawNulls. case isNullAt d row of None \<Rightarrow> None
                | Some isNull \<Rightarrow> setNull rawNulls row isNull) (sv_rows rows)
             (allocate_bool (sv_size rows)) = Some buf"
    and len: "length buf = length (allocate_bool (sv_size rows))"
    and inn: "\<forall>r\<in>set (sv_rows rows). buf ! r = ns ! r"
    by blast
  have "flattenNulls rows d = Some (Some buf)"
    using Some run by (simp add: flattenNulls_def mayHaveNulls_def)
  moreover have "\<forall>r\<in>set (sv_rows rows). newNullAt (Some buf) r = Some (rowNull d r)"
    using inn rng len Some by (simp add: newNullAt_def isBitNull_def read_at_def rowNull_def)
  ultimately show ?thesis by blast
qed

lemma flattenBuffers_result:
  assumes fl: "flattenable rows d"
    and cast: "as_T (dv_base d) = Some (dv_base d)"
    and bs: "rawSizes (dv_base d) = Some ss" and bo: "rawOffsets (dv_base d) = Some os"
    and n: "n = sum_list (map (rowSize d) (nonNullRows rows d))"
  shows "\<exists>nn eI nS nO.
           flattenBuffers as_T rows n d = Some (nn, eI, nS, nO) \<and>
           length eI = n \<and> length nS = sv_end rows \<and> length nO = sv_end rows \<and>
           (\<forall>r\<in>set (nonNullRows rows d).
              nS ! r = rowSize d r \<and> nO ! r + rowSize d r \<le> n \<and>
              (\<forall>i < rowSize d r. eI ! (nO ! r + i) = rowOffset d r + i))"
proof -
  let ?rs = "sv_rows rows"
  from fl have v: "valid_rows rows" by (simp add: flattenable_def)
  have rir: "\<forall>r\<in>set ?rs. row_in_range d r" using flattenable_row [OF fl] by blast
  then have "\<forall>r\<in>set ?rs. (case dv_nulls d of None \<Rightarrow> True | Some ns \<Rightarrow> r < length ns)"
    by (simp add: row_in_range_def)
  from flattenNulls_result [OF v this] obtain nn where
    fn: "flattenNulls rows d = Some nn"
    and nn: "\<forall>r\<in>set ?rs. newNullAt nn r = Some (rowNull d r)" by blast
  have sz: "\<And>r. rowSize d r = ss ! (dv_indices d ! r)" by (simp add: rowSize_def bs)
  have off: "\<And>r. rowOffset d r = os ! (dv_indices d ! r)" by (simp add: rowOffset_def bo)
  have filt: "filter (\<lambda>r. newNullAt nn r = Some False) ?rs = nonNullRows rows d"
    unfolding nonNullRows_def using nn by (intro filter_cong) auto
  have a2: "\<forall>r\<in>set ?rs. \<exists>b. newNullAt nn r = Some b" using nn by blast
  have a3: "\<forall>r\<in>set ?rs. newNullAt nn r = Some False \<longrightarrow>
           r < length (dv_indices d) \<and> dv_indices d ! r < length ss \<and> dv_indices d ! r < length os \<and>
           os ! (dv_indices d ! r) + ss ! (dv_indices d ! r) \<le> 2 ^ 31"
    using rir nn by (auto simp add: row_in_range_def bs bo)
  have a4: "\<forall>r\<in>set ?rs. r < length (allocateSizes (sv_end rows)) \<and> r < length (allocateOffsets (sv_end rows))"
    using valid_rows_bound [OF v] by (simp add: allocateSizes_def allocateOffsets_def)
  have sum: "sum_list (map (\<lambda>r. ss ! (dv_indices d ! r)) (filter (\<lambda>r. newNullAt nn r = Some False) ?rs)) = n"
  proof -
    have "rowSize d = (\<lambda>r. ss ! (dv_indices d ! r))" by (rule ext) (rule sz)
    then show ?thesis by (simp add: filt n)
  qed
  have a5: "0 + sum_list (map (\<lambda>r. ss ! (dv_indices d ! r)) (filter (\<lambda>r. newNullAt nn r = Some False) ?rs))
      \<le> length (allocateIndices n)"
    by (simp add: sum allocateIndices_def)
  have a6: "length (allocateIndices n) < 2 ^ 31"
    using fl n by (simp add: allocateIndices_def flattenable_def)
  from applyToSelected_flattenRow [OF valid_rows_distinct [OF v] a2 a3 a4 a5 a6]
  obtain e' eI nS nO where
    run: "applyToSelected (flattenRow nn (dv_indices d) ss os) ?rs
            (0, allocateIndices n, allocateSizes (sv_end rows), allocateOffsets (sv_end rows)) =
          Some (e', eI, nS, nO)"
    and e': "e' = 0 + sum_list (map (\<lambda>r. ss ! (dv_indices d ! r)) (filter (\<lambda>r. newNullAt nn r = Some False) ?rs))"
    and len: "length eI = length (allocateIndices n)" "length nS = length (allocateSizes (sv_end rows))"
      "length nO = length (allocateOffsets (sv_end rows))"
    and inn: "\<forall>r\<in>set ?rs. newNullAt nn r = Some False \<longrightarrow>
              nS ! r = ss ! (dv_indices d ! r) \<and> 0 \<le> nO ! r \<and> nO ! r + ss ! (dv_indices d ! r) \<le> e' \<and>
              (\<forall>i < ss ! (dv_indices d ! r). eI ! (nO ! r + i) = os ! (dv_indices d ! r) + i)"
    by blast
  have res: "flattenBuffers as_T rows n d = Some (nn, eI, nS, nO)"
    using fn cast bs bo run by (simp add: flattenBuffers_def Let_def)
  have e'n: "e' = n" using e' sum by simp
  have props: "\<forall>r\<in>set (nonNullRows rows d).
              nS ! r = rowSize d r \<and> nO ! r + rowSize d r \<le> n \<and>
              (\<forall>i < rowSize d r. eI ! (nO ! r + i) = rowOffset d r + i)"
  proof
    fix r assume "r \<in> set (nonNullRows rows d)"
    then have "r \<in> set ?rs" "newNullAt nn r = Some False"
      using filt [symmetric] by simp_all
    with inn e'n show "nS ! r = rowSize d r \<and> nO ! r + rowSize d r \<le> n \<and>
              (\<forall>i < rowSize d r. eI ! (nO ! r + i) = rowOffset d r + i)"
      by (simp add: sz off)
  qed
  from res len props show ?thesis
    by (simp add: allocateIndices_def allocateSizes_def allocateOffsets_def)
qed

lemma countElements_result:
  assumes fl: "flattenable rows d"
    and cast: "as_T (dv_base d) = Some (dv_base d)"
    and bs: "rawSizes (dv_base d) = Some ss"
  shows "countElements as_T rows d = Some (sum_list (map (rowSize d) (nonNullRows rows d)))"
proof -
  have sz: "rowSize d = (\<lambda>r. ss ! (dv_indices d ! r))" by (rule ext) (simp add: rowSize_def bs)
  have a1: "\<forall>r\<in>set (sv_rows rows). (case dv_nulls d of None \<Rightarrow> True | Some ns \<Rightarrow> r < length ns) \<and>
             (rowNull d r \<or> (r < length (dv_indices d) \<and> dv_indices d ! r < length ss))"
  proof
    fix r assume "r \<in> set (sv_rows rows)"
    from flattenable_row [OF fl this]
    show "(case dv_nulls d of None \<Rightarrow> True | Some ns \<Rightarrow> r < length ns) \<and>
             (rowNull d r \<or> (r < length (dv_indices d) \<and> dv_indices d ! r < length ss))"
      by (auto simp add: row_in_range_def bs split: option.splits)
  qed
  have a2: "0 + sum_list (map (\<lambda>r. ss ! (dv_indices d ! r)) (filter (\<lambda>r. \<not> rowNull d r) (sv_rows rows))) < 2 ^ 31"
    using fl by (simp add: flattenable_def nonNullRows_def sz)
  from applyToSelected_count [OF a1 a2] show ?thesis
    by (simp add: countElements_def cast bs nonNullRows_def sz)
qed

subsection \<open>The vector that a flattening returns\<close>

lemma valueAt_wrapped:
  "j < length eI \<Longrightarrow> valueAt (DictionaryVector None eI (length eI) es) j = valueAt es (eI ! j)"
  by simp

lemma flattenArray_result:
  assumes ni: "\<not> dv_isIdentityMapping d"
    and base: "dv_base d = ArrayVector bn bl os ss es"
    and fl: "flattenable rows d"
  shows "\<exists>nn nO nS eI.
           flattenArray rows vector d =
             Some (Some (ArrayVector nn (sv_size rows) nO nS (DictionaryVector None eI (length eI) es))) \<and>
           countElements as_ArrayVector rows d = Some (length eI) \<and>
           length eI = sum_list (map (rowSize d) (nonNullRows rows d)) \<and>
           (\<forall>r\<in>set (nonNullRows rows d).
              nS ! r = rowSize d r \<and> nO ! r + rowSize d r \<le> length eI \<and>
              (\<forall>i < rowSize d r. eI ! (nO ! r + i) = rowOffset d r + i))"
proof -
  let ?n = "sum_list (map (rowSize d) (nonNullRows rows d))"
  have cast: "as_ArrayVector (dv_base d) = Some (dv_base d)" by (simp add: base)
  have bs: "rawSizes (dv_base d) = Some ss" and bo: "rawOffsets (dv_base d) = Some os"
    by (simp_all add: base)
  have cnt: "countElements as_ArrayVector rows d = Some ?n"
    by (rule countElements_result [where as_T = as_ArrayVector, OF fl cast bs])
  from flattenBuffers_result [where as_T = as_ArrayVector, OF fl cast bs bo refl]
  obtain nn eI nS nO where
    fb: "flattenBuffers as_ArrayVector rows ?n d = Some (nn, eI, nS, nO)"
    and len: "length eI = ?n"
    and props: "\<forall>r\<in>set (nonNullRows rows d).
              nS ! r = rowSize d r \<and> nO ! r + rowSize d r \<le> ?n \<and>
              (\<forall>i < rowSize d r. eI ! (nO ! r + i) = rowOffset d r + i)"
    by blast
  have "flattenArray rows vector d =
          Some (Some (ArrayVector nn (sv_size rows) nO nS (DictionaryVector None eI (length eI) es)))"
    using ni cnt fb len by (simp add: flattenArray_def base wrapInDictionary_def)
  with cnt len props show ?thesis by auto
qed

lemma flattenMap_result:
  assumes ni: "\<not> dv_isIdentityMapping d"
    and base: "dv_base d = MapVector bn bl os ss ks vs"
    and fl: "flattenable rows d"
  shows "\<exists>nn nO nS eI.
           flattenMap rows vector d =
             Some (Some (MapVector nn (sv_size rows) nO nS
                           (DictionaryVector None eI (length eI) ks)
                           (DictionaryVector None eI (length eI) vs))) \<and>
           countElements as_MapVector rows d = Some (length eI) \<and>
           length eI = sum_list (map (rowSize d) (nonNullRows rows d)) \<and>
           (\<forall>r\<in>set (nonNullRows rows d).
              nS ! r = rowSize d r \<and> nO ! r + rowSize d r \<le> length eI \<and>
              (\<forall>i < rowSize d r. eI ! (nO ! r + i) = rowOffset d r + i))"
proof -
  let ?n = "sum_list (map (rowSize d) (nonNullRows rows d))"
  have cast: "as_MapVector (dv_base d) = Some (dv_base d)" by (simp add: base)
  have bs: "rawSizes (dv_base d) = Some ss" and bo: "rawOffsets (dv_base d) = Some os"
    by (simp_all add: base)
  have cnt: "countElements as_MapVector rows d = Some ?n"
    by (rule countElements_result [where as_T = as_MapVector, OF fl cast bs])
  from flattenBuffers_result [where as_T = as_MapVector, OF fl cast bs bo refl]
  obtain nn eI nS nO where
    fb: "flattenBuffers as_MapVector rows ?n d = Some (nn, eI, nS, nO)"
    and len: "length eI = ?n"
    and props: "\<forall>r\<in>set (nonNullRows rows d).
              nS ! r = rowSize d r \<and> nO ! r + rowSize d r \<le> ?n \<and>
              (\<forall>i < rowSize d r. eI ! (nO ! r + i) = rowOffset d r + i)"
    by blast
  have "flattenMap rows vector d =
          Some (Some (MapVector nn (sv_size rows) nO nS
                           (DictionaryVector None eI (length eI) ks)
                           (DictionaryVector None eI (length eI) vs)))"
    using ni cnt fb len by (simp add: flattenMap_def base wrapInDictionary_def)
  with cnt len props show ?thesis by auto
qed

lemma sum_newSizes:
  "\<forall>r\<in>set rs. nS ! r = f r \<Longrightarrow> sum_list (map (\<lambda>r. nS ! r) rs) = sum_list (map f rs)"
  by (induction rs) simp_all

subsection \<open>The example\<close>

lemma example_flattenable_array: "flattenable example_rows (example_decoded example_array False)"
  by (simp add: flattenable_def valid_rows_def row_in_range_def rowNull_def rowSize_def
      nonNullRows_def example_rows_def example_decoded_def example_array_def)

lemma example_flattenable_map: "flattenable example_rows (example_decoded example_map False)"
  by (simp add: flattenable_def valid_rows_def row_in_range_def rowNull_def rowSize_def
      nonNullRows_def example_rows_def example_decoded_def example_map_def)

lemma example_not_identity: "\<not> dv_isIdentityMapping (example_decoded base False)"
  by (simp add: example_decoded_def)

lemma example_identity: "dv_isIdentityMapping (example_decoded base True)"
  by (simp add: example_decoded_def)

lemma example_array_base:
  "dv_base (example_decoded example_array identity) =
     ArrayVector None 3 [0, 2, 5] [2, 3, 1] example_elements"
  by (simp add: example_decoded_def example_array_def)

lemma example_map_base:
  "dv_base (example_decoded example_map identity) =
     MapVector None 3 [0, 2, 5] [2, 3, 1] example_elements example_values"
  by (simp add: example_decoded_def example_map_def)

lemma example_row_facts:
  "\<not> rowNull (example_decoded example_array False) 3"
  "rowSize (example_decoded example_array False) 3 = 3"
  "rowOffset (example_decoded example_array False) 3 = 2"
  "3 \<in> set (sv_rows example_rows)" "sv_size example_rows = 4"
  "nonNullRows example_rows (example_decoded example_array False) = [0, 3]"
  by (simp_all add: rowNull_def rowSize_def rowOffset_def nonNullRows_def example_decoded_def
      example_array_def example_rows_def)

subsection \<open>The claims about the flattening\<close>

text \<open>
  Claim C5.  \<open>flattenArray\<close> and \<open>flattenMap\<close> on an input that is not
  identity-mapped, for a selection and a decoded vector that a caller may pass
  (\<open>flattenable\<close>): the call is defined, and for every selected row \<open>r\<close> that is
  not null, \<open>newSizes[r]\<close> is the size of the decoded base at \<open>indices[r]\<close>, and
  for every \<open>i\<close> below it \<open>elementIndices[newOffsets[r] + i]\<close> is the offset of
  the base at \<open>indices[r]\<close> plus \<open>i\<close>; the elements child of the result (the keys
  and the values of a map) is the original child wrapped in a dictionary over
  \<open>elementIndices\<close>, so that the elements of the output row are those of the
  dictionary-resolved input row, in order.
\<close>

theorem flatten_content_preservation:
  assumes ni: "\<not> dv_isIdentityMapping d" and fl: "flattenable rows d"
  shows "(\<forall>bn bl os ss es. dv_base d = ArrayVector bn bl os ss es \<longrightarrow>
           (\<exists>nn nO nS eI.
              flattenArray rows vector d =
                Some (Some (ArrayVector nn (sv_size rows) nO nS
                              (DictionaryVector None eI (length eI) es))) \<and>
              (\<forall>r\<in>set (sv_rows rows). \<not> rowNull d r \<longrightarrow>
                 nS ! r = rowSize d r \<and>
                 (\<forall>i < rowSize d r.
                    eI ! (nO ! r + i) = rowOffset d r + i \<and>
                    valueAt (DictionaryVector None eI (length eI) es) (nO ! r + i) =
                      valueAt es (rowOffset d r + i))))) \<and>
         (\<forall>bn bl os ss ks vs. dv_base d = MapVector bn bl os ss ks vs \<longrightarrow>
           (\<exists>nn nO nS eI.
              flattenMap rows vector d =
                Some (Some (MapVector nn (sv_size rows) nO nS
                              (DictionaryVector None eI (length eI) ks)
                              (DictionaryVector None eI (length eI) vs))) \<and>
              (\<forall>r\<in>set (sv_rows rows). \<not> rowNull d r \<longrightarrow>
                 nS ! r = rowSize d r \<and>
                 (\<forall>i < rowSize d r.
                    eI ! (nO ! r + i) = rowOffset d r + i \<and>
                    valueAt (DictionaryVector None eI (length eI) ks) (nO ! r + i) =
                      valueAt ks (rowOffset d r + i) \<and>
                    valueAt (DictionaryVector None eI (length eI) vs) (nO ! r + i) =
                      valueAt vs (rowOffset d r + i)))))"
proof (intro conjI allI impI)
  fix bn bl os ss es
  assume base: "dv_base d = ArrayVector bn bl os ss es"
  from flattenArray_result [OF ni base fl, of vector] obtain nn nO nS eI where
    res: "flattenArray rows vector d =
             Some (Some (ArrayVector nn (sv_size rows) nO nS (DictionaryVector None eI (length eI) es)))"
    and props: "\<forall>r\<in>set (nonNullRows rows d).
              nS ! r = rowSize d r \<and> nO ! r + rowSize d r \<le> length eI \<and>
              (\<forall>i < rowSize d r. eI ! (nO ! r + i) = rowOffset d r + i)"
    by blast
  have "\<forall>r\<in>set (sv_rows rows). \<not> rowNull d r \<longrightarrow>
                 nS ! r = rowSize d r \<and>
                 (\<forall>i < rowSize d r.
                    eI ! (nO ! r + i) = rowOffset d r + i \<and>
                    valueAt (DictionaryVector None eI (length eI) es) (nO ! r + i) =
                      valueAt es (rowOffset d r + i))"
  proof (intro ballI impI)
    fix r assume "r \<in> set (sv_rows rows)" "\<not> rowNull d r"
    then have "r \<in> set (nonNullRows rows d)" by (simp add: nonNullRows_def)
    with props have p: "nS ! r = rowSize d r" "nO ! r + rowSize d r \<le> length eI"
      "\<forall>i < rowSize d r. eI ! (nO ! r + i) = rowOffset d r + i" by blast+
    have "valueAt (DictionaryVector None eI (length eI) es) (nO ! r + i) =
            valueAt es (rowOffset d r + i)" if "i < rowSize d r" for i
      using p that valueAt_wrapped [of "nO ! r + i" eI es] by simp
    with p show "nS ! r = rowSize d r \<and>
                 (\<forall>i < rowSize d r.
                    eI ! (nO ! r + i) = rowOffset d r + i \<and>
                    valueAt (DictionaryVector None eI (length eI) es) (nO ! r + i) =
                      valueAt es (rowOffset d r + i))" by blast
  qed
  with res show "\<exists>nn nO nS eI.
              flattenArray rows vector d =
                Some (Some (ArrayVector nn (sv_size rows) nO nS
                              (DictionaryVector None eI (length eI) es))) \<and>
              (\<forall>r\<in>set (sv_rows rows). \<not> rowNull d r \<longrightarrow>
                 nS ! r = rowSize d r \<and>
                 (\<forall>i < rowSize d r.
                    eI ! (nO ! r + i) = rowOffset d r + i \<and>
                    valueAt (DictionaryVector None eI (length eI) es) (nO ! r + i) =
                      valueAt es (rowOffset d r + i)))" by blast
next
  fix bn bl os ss ks vs
  assume base: "dv_base d = MapVector bn bl os ss ks vs"
  from flattenMap_result [OF ni base fl, of vector] obtain nn nO nS eI where
    res: "flattenMap rows vector d =
             Some (Some (MapVector nn (sv_size rows) nO nS
                           (DictionaryVector None eI (length eI) ks)
                           (DictionaryVector None eI (length eI) vs)))"
    and props: "\<forall>r\<in>set (nonNullRows rows d).
              nS ! r = rowSize d r \<and> nO ! r + rowSize d r \<le> length eI \<and>
              (\<forall>i < rowSize d r. eI ! (nO ! r + i) = rowOffset d r + i)"
    by blast
  have "\<forall>r\<in>set (sv_rows rows). \<not> rowNull d r \<longrightarrow>
                 nS ! r = rowSize d r \<and>
                 (\<forall>i < rowSize d r.
                    eI ! (nO ! r + i) = rowOffset d r + i \<and>
                    valueAt (DictionaryVector None eI (length eI) ks) (nO ! r + i) =
                      valueAt ks (rowOffset d r + i) \<and>
                    valueAt (DictionaryVector None eI (length eI) vs) (nO ! r + i) =
                      valueAt vs (rowOffset d r + i))"
  proof (intro ballI impI)
    fix r assume "r \<in> set (sv_rows rows)" "\<not> rowNull d r"
    then have "r \<in> set (nonNullRows rows d)" by (simp add: nonNullRows_def)
    with props have p: "nS ! r = rowSize d r" "nO ! r + rowSize d r \<le> length eI"
      "\<forall>i < rowSize d r. eI ! (nO ! r + i) = rowOffset d r + i" by blast+
    have "valueAt (DictionaryVector None eI (length eI) ks) (nO ! r + i) =
            valueAt ks (rowOffset d r + i) \<and>
          valueAt (DictionaryVector None eI (length eI) vs) (nO ! r + i) =
            valueAt vs (rowOffset d r + i)" if "i < rowSize d r" for i
      using p that valueAt_wrapped [of "nO ! r + i" eI ks] valueAt_wrapped [of "nO ! r + i" eI vs]
      by simp
    with p show "nS ! r = rowSize d r \<and>
                 (\<forall>i < rowSize d r.
                    eI ! (nO ! r + i) = rowOffset d r + i \<and>
                    valueAt (DictionaryVector None eI (length eI) ks) (nO ! r + i) =
                      valueAt ks (rowOffset d r + i) \<and>
                    valueAt (DictionaryVector None eI (length eI) vs) (nO ! r + i) =
                      valueAt vs (rowOffset d r + i))" by blast
  qed
  with res show "\<exists>nn nO nS eI.
              flattenMap rows vector d =
                Some (Some (MapVector nn (sv_size rows) nO nS
                              (DictionaryVector None eI (length eI) ks)
                              (DictionaryVector None eI (length eI) vs))) \<and>
              (\<forall>r\<in>set (sv_rows rows). \<not> rowNull d r \<longrightarrow>
                 nS ! r = rowSize d r \<and>
                 (\<forall>i < rowSize d r.
                    eI ! (nO ! r + i) = rowOffset d r + i \<and>
                    valueAt (DictionaryVector None eI (length eI) ks) (nO ! r + i) =
                      valueAt ks (rowOffset d r + i) \<and>
                    valueAt (DictionaryVector None eI (length eI) vs) (nO ! r + i) =
                      valueAt vs (rowOffset d r + i)))" by blast
qed

theorem flatten_content_preservation_witness:
  "\<not> dv_isIdentityMapping (example_decoded example_array False) \<and>
   flattenable example_rows (example_decoded example_array False) \<and>
   (\<exists>nn nO nS eI.
      flattenArray example_rows (Some (DictionaryVector None [2, 0, 2, 1] 4 example_array))
          (example_decoded example_array False) =
        Some (Some (ArrayVector nn 4 nO nS (DictionaryVector None eI (length eI) example_elements))) \<and>
      nS ! 3 = 3 \<and> eI ! (nO ! 3 + 0) = 2 \<and> eI ! (nO ! 3 + 1) = 3 \<and> eI ! (nO ! 3 + 2) = 4)"
proof -
  from flatten_content_preservation [OF example_not_identity example_flattenable_array,
      of "Some (DictionaryVector None [2, 0, 2, 1] 4 example_array)"] example_array_base [of False]
  obtain nn nO nS eI where
    res: "flattenArray example_rows (Some (DictionaryVector None [2, 0, 2, 1] 4 example_array))
            (example_decoded example_array False) =
          Some (Some (ArrayVector nn (sv_size example_rows) nO nS
                  (DictionaryVector None eI (length eI) example_elements)))"
    and props: "\<forall>r\<in>set (sv_rows example_rows). \<not> rowNull (example_decoded example_array False) r \<longrightarrow>
                 nS ! r = rowSize (example_decoded example_array False) r \<and>
                 (\<forall>i < rowSize (example_decoded example_array False) r.
                    eI ! (nO ! r + i) = rowOffset (example_decoded example_array False) r + i \<and>
                    valueAt (DictionaryVector None eI (length eI) example_elements) (nO ! r + i) =
                      valueAt example_elements (rowOffset (example_decoded example_array False) r + i))"
    by blast
  from props example_row_facts have
    "nS ! 3 = 3 \<and> (\<forall>i < 3. eI ! (nO ! 3 + i) = 2 + i)" by force
  then have a: "nS ! 3 = 3" and b: "\<forall>i < 3. eI ! (nO ! 3 + i) = 2 + i" by simp_all
  from a b [rule_format, of 0] b [rule_format, of 1] b [rule_format, of 2]
  have "nS ! 3 = 3 \<and> eI ! (nO ! 3 + 0) = 2 \<and> eI ! (nO ! 3 + 1) = 3 \<and> eI ! (nO ! 3 + 2) = 4"
    by simp
  with res example_row_facts(5) example_not_identity example_flattenable_array show ?thesis
    by auto
qed

text \<open>
  Claim C6.  Under the same conditions, the sum of \<open>newSizes[r]\<close> over the selected
  rows that are not null is the length of the buffer \<open>elementIndices\<close>, which is
  \<open>newNumElements\<close>, the result of \<open>countElements\<close> and the length of the
  dictionary placed over the elements child (over the keys and the values of a map).
\<close>

theorem flatten_element_count:
  assumes ni: "\<not> dv_isIdentityMapping d" and fl: "flattenable rows d"
  shows "(\<forall>bn bl os ss es. dv_base d = ArrayVector bn bl os ss es \<longrightarrow>
           (\<exists>nn nO nS eI n.
              flattenArray rows vector d =
                Some (Some (ArrayVector nn (sv_size rows) nO nS (DictionaryVector None eI n es))) \<and>
              countElements as_ArrayVector rows d = Some n \<and>
              sum_list (map (\<lambda>r. nS ! r) (nonNullRows rows d)) = length eI \<and>
              length eI = n)) \<and>
         (\<forall>bn bl os ss ks vs. dv_base d = MapVector bn bl os ss ks vs \<longrightarrow>
           (\<exists>nn nO nS eI n.
              flattenMap rows vector d =
                Some (Some (MapVector nn (sv_size rows) nO nS
                              (DictionaryVector None eI n ks) (DictionaryVector None eI n vs))) \<and>
              countElements as_MapVector rows d = Some n \<and>
              sum_list (map (\<lambda>r. nS ! r) (nonNullRows rows d)) = length eI \<and>
              length eI = n))"
proof (intro conjI allI impI)
  fix bn bl os ss es
  assume base: "dv_base d = ArrayVector bn bl os ss es"
  from flattenArray_result [OF ni base fl, of vector] obtain nn nO nS eI where
    res: "flattenArray rows vector d =
             Some (Some (ArrayVector nn (sv_size rows) nO nS (DictionaryVector None eI (length eI) es)))"
    and cnt: "countElements as_ArrayVector rows d = Some (length eI)"
    and len: "length eI = sum_list (map (rowSize d) (nonNullRows rows d))"
    and props: "\<forall>r\<in>set (nonNullRows rows d).
              nS ! r = rowSize d r \<and> nO ! r + rowSize d r \<le> length eI \<and>
              (\<forall>i < rowSize d r. eI ! (nO ! r + i) = rowOffset d r + i)"
    by blast
  from props have "\<forall>r\<in>set (nonNullRows rows d). nS ! r = rowSize d r" by blast
  from sum_newSizes [OF this] len
  have "sum_list (map (\<lambda>r. nS ! r) (nonNullRows rows d)) = length eI" by simp
  with res cnt show "\<exists>nn nO nS eI n.
              flattenArray rows vector d =
                Some (Some (ArrayVector nn (sv_size rows) nO nS (DictionaryVector None eI n es))) \<and>
              countElements as_ArrayVector rows d = Some n \<and>
              sum_list (map (\<lambda>r. nS ! r) (nonNullRows rows d)) = length eI \<and>
              length eI = n" by blast
next
  fix bn bl os ss ks vs
  assume base: "dv_base d = MapVector bn bl os ss ks vs"
  from flattenMap_result [OF ni base fl, of vector] obtain nn nO nS eI where
    res: "flattenMap rows vector d =
             Some (Some (MapVector nn (sv_size rows) nO nS
                           (DictionaryVector None eI (length eI) ks)
                           (DictionaryVector None eI (length eI) vs)))"
    and cnt: "countElements as_MapVector rows d = Some (length eI)"
    and len: "length eI = sum_list (map (rowSize d) (nonNullRows rows d))"
    and props: "\<forall>r\<in>set (nonNullRows rows d).
              nS ! r = rowSize d r \<and> nO ! r + rowSize d r \<le> length eI \<and>
              (\<forall>i < rowSize d r. eI ! (nO ! r + i) = rowOffset d r + i)"
    by blast
  from props have "\<forall>r\<in>set (nonNullRows rows d). nS ! r = rowSize d r" by blast
  from sum_newSizes [OF this] len
  have "sum_list (map (\<lambda>r. nS ! r) (nonNullRows rows d)) = length eI" by simp
  with res cnt show "\<exists>nn nO nS eI n.
              flattenMap rows vector d =
                Some (Some (MapVector nn (sv_size rows) nO nS
                              (DictionaryVector None eI n ks) (DictionaryVector None eI n vs))) \<and>
              countElements as_MapVector rows d = Some n \<and>
              sum_list (map (\<lambda>r. nS ! r) (nonNullRows rows d)) = length eI \<and>
              length eI = n" by blast
qed

theorem flatten_element_count_witness:
  "\<not> dv_isIdentityMapping (example_decoded example_map False) \<and>
   flattenable example_rows (example_decoded example_map False) \<and>
   (\<exists>nn nO nS eI n.
      flattenMap example_rows (Some (DictionaryVector None [2, 0, 2, 1] 4 example_map))
          (example_decoded example_map False) =
        Some (Some (MapVector nn 4 nO nS (DictionaryVector None eI n example_elements)
                      (DictionaryVector None eI n example_values))) \<and>
      countElements as_MapVector example_rows (example_decoded example_map False) = Some n \<and>
      nS ! 0 + nS ! 3 = length eI \<and> length eI = n)"
proof -
  have nn: "nonNullRows example_rows (example_decoded example_map False) = [0, 3]"
    by (simp add: nonNullRows_def rowNull_def example_decoded_def example_rows_def)
  from flatten_element_count [OF example_not_identity example_flattenable_map,
      of "Some (DictionaryVector None [2, 0, 2, 1] 4 example_map)"] example_map_base [of False]
  obtain nn' nO nS eI n where
    "flattenMap example_rows (Some (DictionaryVector None [2, 0, 2, 1] 4 example_map))
          (example_decoded example_map False) =
        Some (Some (MapVector nn' (sv_size example_rows) nO nS
                      (DictionaryVector None eI n example_elements)
                      (DictionaryVector None eI n example_values)))"
    "countElements as_MapVector example_rows (example_decoded example_map False) = Some n"
    "sum_list (map (\<lambda>r. nS ! r) (nonNullRows example_rows (example_decoded example_map False)))
       = length eI"
    "length eI = n"
    by blast
  with nn example_row_facts(5) example_not_identity example_flattenable_map show ?thesis
    by auto
qed

text \<open>
  Claim C7.  When the decoded vector is identity-mapped, \<open>flattenArray\<close> returns
  the array vector it is given, and \<open>flattenMap\<close> the map vector: the result is the
  cast of the argument pointer, and no buffer is allocated.
\<close>

theorem flatten_identity_returns_input:
  assumes "dv_isIdentityMapping d"
  shows "flattenArray rows (Some (ArrayVector n l os ss es)) d = Some (Some (ArrayVector n l os ss es)) \<and>
         flattenMap rows (Some (MapVector n l os ss ks vs)) d = Some (Some (MapVector n l os ss ks vs)) \<and>
         flattenArray rows vector d = Some (dynamic_pointer_cast as_ArrayVector vector) \<and>
         flattenMap rows vector d = Some (dynamic_pointer_cast as_MapVector vector)"
  using assms by (simp add: flattenArray_def flattenMap_def dynamic_pointer_cast_def)

theorem flatten_identity_returns_input_witness:
  "dv_isIdentityMapping (example_decoded example_array True) \<and>
   flattenArray example_rows (Some example_array) (example_decoded example_array True) =
     Some (Some example_array) \<and>
   dv_isIdentityMapping (example_decoded example_map True) \<and>
   flattenMap example_rows (Some example_map) (example_decoded example_map True) =
     Some (Some example_map)"
  using flatten_identity_returns_input
      [where rows = example_rows and n = None and l = 3 and os = "[0, 2, 5]"
        and ss = "[2, 3, 1]" and es = example_elements and ks = example_elements
        and vs = example_values and vector = None, OF example_identity [of example_array]]
    flatten_identity_returns_input
      [where rows = example_rows and n = None and l = 3 and os = "[0, 2, 5]"
        and ss = "[2, 3, 1]" and es = example_elements and ks = example_elements
        and vs = example_values and vector = None, OF example_identity [of example_map]]
    example_identity
  by (simp add: example_array_def example_map_def)

section \<open>Properties of the conversion of a dictionary column\<close>

lemma fold_max_ge:
  "(m :: nat) \<le> fold (\<lambda>i maxIndex. max maxIndex (selection ! i)) xs m \<and>
   (\<forall>i\<in>set xs. selection ! i \<le> fold (\<lambda>i maxIndex. max maxIndex (selection ! i)) xs m)"
proof (induction xs arbitrary: m)
  case Nil
  then show ?case by simp
next
  case (Cons x xs)
  from Cons.IH [of "max m (selection ! x)"] show ?case by auto
qed

lemma maxSelectionIndex_ge:
  "i < n \<Longrightarrow> selection ! i \<le> maxSelectionIndex selection n"
  using fold_max_ge [of 0 selection "[0..<n]"] by (simp add: maxSelectionIndex_def)

lemma convert_dictionary_over_flat:
  assumes "n \<le> length selection"
    and "t \<noteq> HUGEINT" "t \<noteq> TIMESTAMP" "t \<noteq> VARCHAR"
  shows "convert toVelox zero (DICTIONARY_VECTOR t p (FLAT_VECTOR t p duckData None) selection) n validity =
           Some (Inr (DictionaryVector None (take n selection) n
                  (FlatVector None (maxSelectionIndex selection n + 1)
                     (take (maxSelectionIndex selection n + 1) duckData))))"
  using assms by (simp add: nullsOf_def wrapInDictionary_def Let_def)

lemma convert_dictionary_reads_selection:
  assumes "n \<le> length selection" and "i < n" and "selection ! i < length duckData"
  shows "valueAt (DictionaryVector None (take n selection) n
                  (FlatVector None (maxSelectionIndex selection n + 1)
                     (take (maxSelectionIndex selection n + 1) duckData))) i =
           Some (Some (duckData ! (selection ! i)))"
  using assms maxSelectionIndex_ge [of i n selection] by simp

lemma decimal_dictionary_evaluated:
  "toVeloxVector id 0 4 (dictionary_column DECIMAL INT64) =
     Some (Inr (FlatVector None 4 [10, 20, 30]))"
  by code_simp

lemma decimal_dictionary_rows:
  "rows_read (toVeloxVector id 0 4 (dictionary_column DECIMAL INT64)) 4 =
     [Some (Some 10), Some (Some 20), Some (Some 30), None]"
  by code_simp

lemma bigint_dictionary_rows:
  "rows_read (toVeloxVector id 0 4 (dictionary_column BIGINT INT64)) 4 =
     [Some (Some 30), Some (Some 10), Some (Some 30), Some (Some 20)]"
  by code_simp

text \<open>
  Claim C1 holds for the columns that \<open>convert\<close> handles
  (\<open>convert_dictionary_over_flat\<close>, \<open>convert_dictionary_reads_selection\<close>), not
  for a decimal column.  The dictionary branch of \<open>convertDuckToVeloxDecimal\<close>
  computes \<open>maxIndex\<close>, as its comments announce, and then returns the conversion of
  the child with the length \<open>size\<close> of the chunk: the converted child is not
  wrapped by \<open>wrapInDictionary\<close> and the selection is dropped.  For the base
  \<open>[10, 20, 30]\<close> under the selection \<open>[2, 0, 2, 1]\<close>, a decimal column stored
  in 64 bits is returned as the flat vector of length 4 over the base, whose rows read
  10, 20, 30 and a slot past the base; the same column of the type BIGINT reads
  30, 10, 30, 20.
\<close>

theorem decimal_dictionary_not_wrapped:
  "toVeloxVector id 0 4 (dictionary_column DECIMAL INT64) =
     Some (Inr (FlatVector None 4 [10, 20, 30])) \<and>
   rows_read (toVeloxVector id 0 4 (dictionary_column DECIMAL INT64)) 4 =
     [Some (Some 10), Some (Some 20), Some (Some 30), None] \<and>
   rows_read (toVeloxVector id 0 4 (dictionary_column BIGINT INT64)) 4 =
     [Some (Some 30), Some (Some 10), Some (Some 30), Some (Some 20)]"
  using decimal_dictionary_evaluated decimal_dictionary_rows bigint_dictionary_rows by simp

end
